theory Spec2Isabelle
  imports Main "HOL-Library.Word"
begin

section \<open>Values of the platform\<close>

text \<open>
  A JavaScript string is a sequence of 16-bit code units; an ArrayBuffer or Uint8Array is a
  sequence of bytes. Exceptions of the platform are values of type \<open>error\<close>; a computation
  that may throw returns \<open>error + 'a\<close>, with \<open>Inl\<close> for the exception.
\<close>

type_synonym byte = "8 word"
type_synonym code_unit = "16 word"
type_synonym jsstring = "code_unit list"

datatype error =
    InvalidCharacterError
  | OperationError
  | TypeError
  | RangeError
  | QuotaExceededError
  | SyntaxError
  | NotAllowedError
  | FirebaseError

definition bindE :: "error + 'a \<Rightarrow> ('a \<Rightarrow> error + 'b) \<Rightarrow> error + 'b" where
  "bindE m f = (case m of Inl e \<Rightarrow> Inl e | Inr x \<Rightarrow> f x)"

text \<open>String literals of the source, written as Isabelle strings, as code units.\<close>

definition lit :: "string \<Rightarrow> jsstring" where
  "lit s = map (\<lambda>c. of_nat (of_char c)) s"

text \<open>\<open>String.fromCharCode(b)\<close> for a byte, and the store of a code unit into a
  \<open>Uint8Array\<close> cell (which keeps the low eight bits).\<close>

definition fromCharCode :: "byte \<Rightarrow> code_unit" where
  "fromCharCode b = ucast b"

definition toUint8 :: "code_unit \<Rightarrow> byte" where
  "toUint8 c = ucast c"

section \<open>Base64 of the platform: \<open>btoa\<close> and \<open>atob\<close>\<close>

text \<open>
  The alphabet of RFC 4648: index to code unit and back. \<open>0x3D\<close> is the padding \<open>=\<close>.
\<close>

definition b64_char :: "nat \<Rightarrow> code_unit" where
  "b64_char i = of_nat (if i < 26 then 65 + i
                        else if i < 52 then 97 + (i - 26)
                        else if i < 62 then 48 + (i - 52)
                        else if i = 62 then 43 else 47)"

definition b64_index :: "code_unit \<Rightarrow> nat option" where
  "b64_index c = (let n = unat c in
     if 65 \<le> n \<and> n \<le> 90 then Some (n - 65)
     else if 97 \<le> n \<and> n \<le> 122 then Some (n - 97 + 26)
     else if 48 \<le> n \<and> n \<le> 57 then Some (n - 48 + 52)
     else if n = 43 then Some 62
     else if n = 47 then Some 63
     else None)"

text \<open>Encoding: three bytes make 24 bits, cut into four groups of six; a last group of one
  or two bytes is filled with zero bits, gives as many characters as hold its bits, and is
  padded with \<open>=\<close>.\<close>

definition b64_quad :: "nat \<Rightarrow> jsstring" where
  "b64_quad n = [b64_char (n div 262144), b64_char (n div 4096 mod 64),
                 b64_char (n div 64 mod 64), b64_char (n mod 64)]"

fun b64_encode :: "byte list \<Rightarrow> jsstring" where
  "b64_encode (a # b # c # rest) =
     b64_quad (unat a * 65536 + unat b * 256 + unat c) @ b64_encode rest"
| "b64_encode [a, b] = take 3 (b64_quad (unat a * 65536 + unat b * 256)) @ [0x3D]"
| "b64_encode [a] = take 2 (b64_quad (unat a * 65536)) @ [0x3D, 0x3D]"
| "b64_encode [] = []"

text \<open>\<open>btoa\<close> takes a binary string: it throws when a code unit is above \<open>0xFF\<close>.\<close>

definition btoa :: "jsstring \<Rightarrow> error + jsstring" where
  "btoa s = (if list_ex (\<lambda>c. 255 < unat c) s then Inl InvalidCharacterError
             else Inr (b64_encode (map toUint8 s)))"

text \<open>
  \<open>atob\<close> is the forgiving decoder: ASCII whitespace is removed; when the length is then a
  multiple of four, one or two final \<open>=\<close> are removed; a length of remainder one and any
  code unit outside the alphabet are failures; each six bits are shifted into a buffer that
  is emitted as three bytes when it holds 24 bits; 12 or 18 bits left at the end give one
  or two bytes, the surplus bits dropped.
\<close>

definition ascii_whitespace :: "code_unit \<Rightarrow> bool" where
  "ascii_whitespace c = (c = 0x09 \<or> c = 0x0A \<or> c = 0x0C \<or> c = 0x0D \<or> c = 0x20)"

definition remove_padding :: "jsstring \<Rightarrow> jsstring" where
  "remove_padding d =
     (if length d mod 4 = 0 \<and> d \<noteq> [] \<and> last d = 0x3D
      then (let d1 = butlast d in if d1 \<noteq> [] \<and> last d1 = 0x3D then butlast d1 else d1)
      else d)"

fun b64_decode_groups :: "nat list \<Rightarrow> byte list" where
  "b64_decode_groups (s1 # s2 # s3 # s4 # rest) =
     (let n = ((s1 * 64 + s2) * 64 + s3) * 64 + s4 in
      [of_nat (n div 65536), of_nat (n div 256 mod 256), of_nat (n mod 256)])
     @ b64_decode_groups rest"
| "b64_decode_groups [s1, s2, s3] =
     (let n = ((s1 * 64 + s2) * 64 + s3) div 4 in
      [of_nat (n div 256), of_nat (n mod 256)])"
| "b64_decode_groups [s1, s2] = [of_nat ((s1 * 64 + s2) div 16)]"
| "b64_decode_groups [s1] = []"
| "b64_decode_groups [] = []"

definition atob :: "jsstring \<Rightarrow> error + jsstring" where
  "atob s =
     (let d = remove_padding (filter (\<lambda>c. \<not> ascii_whitespace c) s) in
      if length d mod 4 = 1 then Inl InvalidCharacterError
      else if list_ex (\<lambda>c. b64_index c = None) d then Inl InvalidCharacterError
      else Inr (map fromCharCode (b64_decode_groups (map (\<lambda>c. the (b64_index c)) d))))"

section \<open>\<open>crypto.ts\<close>: the base64 helpers\<close>

text \<open>The loop of \<open>arrayBufferToBase64\<close>: \<open>binary += String.fromCharCode(bytes[i])\<close>.\<close>

function arrayBufferToBase64_loop :: "byte list \<Rightarrow> nat \<Rightarrow> jsstring \<Rightarrow> jsstring" where
  "arrayBufferToBase64_loop bytes i binary =
     (if i < length bytes
      then arrayBufferToBase64_loop bytes (i + 1) (binary @ [fromCharCode (bytes ! i)])
      else binary)"
  by pat_completeness auto
termination
  by (relation "measure (\<lambda>(bytes, i, binary). length bytes - i)") auto

declare arrayBufferToBase64_loop.simps [simp del]

definition arrayBufferToBase64 :: "byte list \<Rightarrow> error + jsstring" where
  "arrayBufferToBase64 buffer = btoa (arrayBufferToBase64_loop buffer 0 [])"

text \<open>The loop of \<open>base64ToArrayBuffer\<close>: \<open>bytes[i] = binary.charCodeAt(i)\<close>, on an array
  of \<open>binary.length\<close> zero bytes.\<close>

function base64ToArrayBuffer_loop :: "jsstring \<Rightarrow> nat \<Rightarrow> byte list \<Rightarrow> byte list" where
  "base64ToArrayBuffer_loop binary i bytes =
     (if i < length binary
      then base64ToArrayBuffer_loop binary (i + 1) (bytes[i := toUint8 (binary ! i)])
      else bytes)"
  by pat_completeness auto
termination
  by (relation "measure (\<lambda>(binary, i, bytes). length binary - i)") auto

declare base64ToArrayBuffer_loop.simps [simp del]

definition base64ToArrayBuffer :: "jsstring \<Rightarrow> error + byte list" where
  "base64ToArrayBuffer base64 =
     bindE (atob base64)
       (\<lambda>binary. Inr (base64ToArrayBuffer_loop binary 0 (replicate (length binary) 0)))"

text \<open>The encoding without its padding, used to state what \<open>atob\<close> sees after it has
  removed the padding.\<close>

fun b64_body :: "byte list \<Rightarrow> jsstring" where
  "b64_body (a # b # c # rest) =
     b64_quad (unat a * 65536 + unat b * 256 + unat c) @ b64_body rest"
| "b64_body [a, b] = take 3 (b64_quad (unat a * 65536 + unat b * 256))"
| "b64_body [a] = take 2 (b64_quad (unat a * 65536))"
| "b64_body [] = []"

definition b64_ok :: "code_unit \<Rightarrow> bool" where
  "b64_ok c = (b64_index c \<noteq> None)"

section \<open>Text codec of the platform: \<open>TextEncoder\<close> and \<open>TextDecoder\<close>\<close>

text \<open>
  \<open>new TextEncoder().encode(s)\<close> first reads the string as scalar values: a high surrogate
  followed by a low one is one supplementary code point, any other surrogate becomes
  \<open>U+FFFD\<close>. Each scalar value is then written in UTF-8.
\<close>

definition is_high :: "code_unit \<Rightarrow> bool" where
  "is_high c = (0xD800 \<le> unat c \<and> unat c \<le> 0xDBFF)"

definition is_low :: "code_unit \<Rightarrow> bool" where
  "is_low c = (0xDC00 \<le> unat c \<and> unat c \<le> 0xDFFF)"

definition is_surrogate :: "code_unit \<Rightarrow> bool" where
  "is_surrogate c = (0xD800 \<le> unat c \<and> unat c \<le> 0xDFFF)"

fun to_scalars :: "jsstring \<Rightarrow> nat list" where
  "to_scalars [] = []"
| "to_scalars [c] = (if is_surrogate c then [0xFFFD] else [unat c])"
| "to_scalars (c # d # rest) =
     (if is_high c \<and> is_low d
      then (0x10000 + (unat c - 0xD800) * 1024 + (unat d - 0xDC00)) # to_scalars rest
      else if is_surrogate c then 0xFFFD # to_scalars (d # rest)
      else unat c # to_scalars (d # rest))"

definition to_byte :: "nat \<Rightarrow> byte" where
  "to_byte n = of_nat n"

definition utf8_encode_cp :: "nat \<Rightarrow> byte list" where
  "utf8_encode_cp cp =
     (if cp < 0x80 then [to_byte cp]
      else if cp < 0x800 then [to_byte (0xC0 + cp div 64), to_byte (0x80 + cp mod 64)]
      else if cp < 0x10000
      then [to_byte (0xE0 + cp div 4096), to_byte (0x80 + cp div 64 mod 64),
            to_byte (0x80 + cp mod 64)]
      else [to_byte (0xF0 + cp div 262144), to_byte (0x80 + cp div 4096 mod 64),
            to_byte (0x80 + cp div 64 mod 64), to_byte (0x80 + cp mod 64)])"

definition TextEncoder_encode :: "jsstring \<Rightarrow> byte list" where
  "TextEncoder_encode s = concat (map utf8_encode_cp (to_scalars s))"

text \<open>
  \<open>new TextDecoder().decode(bytes)\<close> is the UTF-8 decoder of the Encoding standard, not
  fatal: a state of the code point under construction, the bytes needed and seen, and the
  bounds of the next continuation byte. A byte that cannot continue the sequence gives
  \<open>U+FFFD\<close> and is read again as a first byte. A leading \<open>U+FEFF\<close> of the output is
  dropped (\<open>ignoreBOM\<close> is false by default). Code points above \<open>0xFFFF\<close> become
  surrogate pairs.
\<close>

record dstate =
  ds_cp :: nat
  ds_needed :: nat
  ds_seen :: nat
  ds_lower :: nat
  ds_upper :: nat

definition ds_init :: dstate where
  "ds_init = \<lparr>ds_cp = 0, ds_needed = 0, ds_seen = 0, ds_lower = 0x80, ds_upper = 0xBF\<rparr>"

definition utf8_first :: "nat \<Rightarrow> nat list \<times> dstate" where
  "utf8_first b =
     (if b \<le> 0x7F then ([b], ds_init)
      else if 0xC2 \<le> b \<and> b \<le> 0xDF
      then ([], ds_init\<lparr>ds_needed := 1, ds_cp := b mod 32\<rparr>)
      else if 0xE0 \<le> b \<and> b \<le> 0xEF
      then ([], ds_init\<lparr>ds_needed := 2, ds_cp := b mod 16,
                 ds_lower := (if b = 0xE0 then 0xA0 else 0x80),
                 ds_upper := (if b = 0xED then 0x9F else 0xBF)\<rparr>)
      else if 0xF0 \<le> b \<and> b \<le> 0xF4
      then ([], ds_init\<lparr>ds_needed := 3, ds_cp := b mod 8,
                 ds_lower := (if b = 0xF0 then 0x90 else 0x80),
                 ds_upper := (if b = 0xF4 then 0x8F else 0xBF)\<rparr>)
      else ([0xFFFD], ds_init))"

fun utf8_decode :: "dstate \<Rightarrow> nat list \<Rightarrow> nat list" where
  "utf8_decode st [] = (if ds_needed st \<noteq> 0 then [0xFFFD] else [])"
| "utf8_decode st (b # bs) =
     (if ds_needed st = 0
      then fst (utf8_first b) @ utf8_decode (snd (utf8_first b)) bs
      else if b < ds_lower st \<or> ds_upper st < b
      then 0xFFFD # fst (utf8_first b) @ utf8_decode (snd (utf8_first b)) bs
      else if ds_seen st + 1 \<noteq> ds_needed st
      then utf8_decode (st\<lparr>ds_cp := ds_cp st * 64 + b mod 64, ds_seen := ds_seen st + 1,
                             ds_lower := 0x80, ds_upper := 0xBF\<rparr>) bs
      else (ds_cp st * 64 + b mod 64) # utf8_decode ds_init bs)"

definition strip_bom :: "nat list \<Rightarrow> nat list" where
  "strip_bom cps = (case cps of [] \<Rightarrow> [] | cp # rest \<Rightarrow> if cp = 0xFEFF then rest else cps)"

definition from_scalar :: "nat \<Rightarrow> jsstring" where
  "from_scalar cp =
     (if cp < 0x10000 then [of_nat cp]
      else [of_nat (0xD800 + (cp - 0x10000) div 1024),
            of_nat (0xDC00 + (cp - 0x10000) mod 1024)])"

definition TextDecoder_decode :: "byte list \<Rightarrow> jsstring" where
  "TextDecoder_decode bytes =
     concat (map from_scalar (strip_bom (utf8_decode ds_init (map unat bytes))))"

text \<open>\<open>String.prototype.isWellFormed\<close>: no surrogate stands alone.\<close>

fun well_formed :: "jsstring \<Rightarrow> bool" where
  "well_formed [] = True"
| "well_formed [c] = (\<not> is_surrogate c)"
| "well_formed (c # d # rest) =
     (if is_high c then is_low d \<and> well_formed rest
      else \<not> is_surrogate c \<and> well_formed (d # rest))"

definition starts_with_bom :: "jsstring \<Rightarrow> bool" where
  "starts_with_bom s = (case s of [] \<Rightarrow> False | c # rest \<Rightarrow> c = 0xFEFF)"

section \<open>The cryptographic primitives of the platform\<close>

text \<open>
  \<open>crypto.subtle\<close> and \<open>crypto.getRandomValues\<close> are not code of the repository: they are
  parameters of the model. \<open>'m\<close> is the imported key material and \<open>'k\<close> the
  \<open>CryptoKey\<close> for AES-GCM. Each call may reject; the random source is a stream of bytes
  (and of 32-bit values for a \<open>Uint32Array\<close>).
\<close>

record ('m, 'k) platform =
  importKey :: "byte list \<Rightarrow> error + 'm"
  subtle_deriveKey :: "byte list \<Rightarrow> nat \<Rightarrow> 'm \<Rightarrow> nat \<Rightarrow> error + 'k"
  aes_gcm_encrypt :: "'k \<Rightarrow> byte list \<Rightarrow> byte list \<Rightarrow> error + byte list"
  aes_gcm_decrypt :: "'k \<Rightarrow> byte list \<Rightarrow> byte list \<Rightarrow> error + byte list"

text \<open>What AES-GCM guarantees and the model relies on: opening, under the same key and
  nonce, what was sealed gives the plaintext back.\<close>

definition aead_correct :: "('m, 'k) platform \<Rightarrow> bool" where
  "aead_correct P =
     (\<forall>k iv p c. aes_gcm_encrypt P k iv p = Inr c \<longrightarrow> aes_gcm_decrypt P k iv c = Inr p)"

section \<open>\<open>crypto.ts\<close>\<close>

definition PBKDF2_ITERATIONS :: nat where "PBKDF2_ITERATIONS = 200000"
definition SALT_LENGTH :: nat where "SALT_LENGTH = 16"
definition IV_LENGTH :: nat where "IV_LENGTH = 12"
definition KEY_LENGTH :: nat where "KEY_LENGTH = 256"

definition generateSalt :: "(nat \<Rightarrow> byte) \<Rightarrow> byte list" where
  "generateSalt rnd = map rnd [0..<SALT_LENGTH]"

definition generateIV :: "(nat \<Rightarrow> byte) \<Rightarrow> byte list" where
  "generateIV rnd = map rnd [0..<IV_LENGTH]"

definition deriveKey :: "('m, 'k) platform \<Rightarrow> jsstring \<Rightarrow> byte list \<Rightarrow> error + 'k" where
  "deriveKey P masterPassword salt =
     (let passwordBuffer = TextEncoder_encode masterPassword in
      bindE (importKey P passwordBuffer)
        (\<lambda>keyMaterial. subtle_deriveKey P salt PBKDF2_ITERATIONS keyMaterial KEY_LENGTH))"

definition generateVerifier ::
  "('m, 'k) platform \<Rightarrow> jsstring \<Rightarrow> byte list \<Rightarrow> error + jsstring" where
  "generateVerifier P masterPassword salt =
     bindE (deriveKey P masterPassword salt)
       (\<lambda>key. let verifierData = TextEncoder_encode (lit ''VERIFY'') in
          bindE (aes_gcm_encrypt P key (replicate IV_LENGTH 0) verifierData)
            (\<lambda>encrypted. arrayBufferToBase64 encrypted))"

text \<open>The body of the \<open>try\<close> block of \<open>verifyMasterPassword\<close>, and the function with its
  \<open>catch\<close>, which turns every exception into \<open>false\<close>.\<close>

definition verifyMasterPassword_try ::
  "('m, 'k) platform \<Rightarrow> jsstring \<Rightarrow> byte list \<Rightarrow> jsstring \<Rightarrow> error + bool" where
  "verifyMasterPassword_try P masterPassword salt storedVerifier =
     bindE (deriveKey P masterPassword salt)
       (\<lambda>key. bindE (base64ToArrayBuffer storedVerifier)
          (\<lambda>encryptedData. bindE (aes_gcm_decrypt P key (replicate IV_LENGTH 0) encryptedData)
             (\<lambda>decrypted. let decoded = TextDecoder_decode decrypted in
                Inr (decoded = lit ''VERIFY''))))"

definition verifyMasterPassword ::
  "('m, 'k) platform \<Rightarrow> jsstring \<Rightarrow> byte list \<Rightarrow> jsstring \<Rightarrow> error + bool" where
  "verifyMasterPassword P masterPassword salt storedVerifier =
     (case verifyMasterPassword_try P masterPassword salt storedVerifier of
        Inr b \<Rightarrow> Inr b
      | Inl e \<Rightarrow> Inr False)"

record encrypted =
  ciphertext :: jsstring
  iv :: jsstring

definition encryptData ::
  "('m, 'k) platform \<Rightarrow> (nat \<Rightarrow> byte) \<Rightarrow> jsstring \<Rightarrow> 'k \<Rightarrow> error + encrypted" where
  "encryptData P rnd data key =
     (let dataBuffer = TextEncoder_encode data;
          ivBytes = generateIV rnd in
      bindE (aes_gcm_encrypt P key ivBytes dataBuffer)
        (\<lambda>encrypted. bindE (arrayBufferToBase64 encrypted)
           (\<lambda>ct. bindE (arrayBufferToBase64 ivBytes)
              (\<lambda>ivText. Inr \<lparr>ciphertext = ct, iv = ivText\<rparr>))))"

definition decryptData ::
  "('m, 'k) platform \<Rightarrow> jsstring \<Rightarrow> jsstring \<Rightarrow> 'k \<Rightarrow> error + jsstring" where
  "decryptData P ct ivText key =
     bindE (base64ToArrayBuffer ct)
       (\<lambda>encryptedData. bindE (base64ToArrayBuffer ivText)
          (\<lambda>ivBuffer. bindE (aes_gcm_decrypt P key ivBuffer encryptedData)
             (\<lambda>decrypted. Inr (TextDecoder_decode decrypted))))"

subsection \<open>\<open>generatePassword\<close>\<close>

text \<open>An option that is absent (\<open>None\<close>) takes its default, \<open>true\<close>.\<close>

record gen_options =
  uppercase :: "bool option"
  lowercase :: "bool option"
  numbers :: "bool option"
  symbols :: "bool option"

definition enabled :: "bool option \<Rightarrow> bool" where
  "enabled v = (case v of None \<Rightarrow> True | Some b \<Rightarrow> b)"

definition UPPERCASE :: jsstring where "UPPERCASE = lit ''ABCDEFGHIJKLMNOPQRSTUVWXYZ''"
definition LOWERCASE :: jsstring where "LOWERCASE = lit ''abcdefghijklmnopqrstuvwxyz''"
definition NUMBERS :: jsstring where "NUMBERS = lit ''0123456789''"
definition SYMBOLS :: jsstring where "SYMBOLS = lit ''!@#$%^&*()_+-=[]{}|;:,.<>?''"
definition FALLBACK :: jsstring where
  "FALLBACK = lit ''abcdefghijklmnopqrstuvwxyzABCDEFGHIJKLMNOPQRSTUVWXYZ0123456789''"

definition build_charset :: "gen_options \<Rightarrow> jsstring" where
  "build_charset options =
     (let charset = [];
          charset = (if enabled (uppercase options) then charset @ UPPERCASE else charset);
          charset = (if enabled (lowercase options) then charset @ LOWERCASE else charset);
          charset = (if enabled (numbers options) then charset @ NUMBERS else charset);
          charset = (if enabled (symbols options) then charset @ SYMBOLS else charset)
      in if charset = [] then FALLBACK else charset)"

function generatePassword_loop ::
  "jsstring \<Rightarrow> 32 word list \<Rightarrow> nat \<Rightarrow> nat \<Rightarrow> jsstring \<Rightarrow> jsstring" where
  "generatePassword_loop charset array len i password =
     (if i < len
      then generatePassword_loop charset array len (i + 1)
             (password @ [charset ! (unat (array ! i) mod length charset)])
      else password)"
  by pat_completeness auto
termination
  by (relation "measure (\<lambda>(charset, array, len, i, password). len - i)") auto

declare generatePassword_loop.simps [simp del]

text \<open>\<open>crypto.getRandomValues\<close> rejects an array of more than 65536 bytes.\<close>

definition generatePassword ::
  "(nat \<Rightarrow> 32 word) \<Rightarrow> nat \<Rightarrow> gen_options \<Rightarrow> error + jsstring" where
  "generatePassword rnd32 len options =
     (let charset = build_charset options in
      if 65536 < 4 * len then Inl QuotaExceededError
      else (let array = map rnd32 [0..<len] in
            Inr (generatePassword_loop charset array len 0 [])))"

subsection \<open>\<open>secureClipboardCopy\<close>\<close>

text \<open>
  A JavaScript number is finite, \<open>m * 2 ^ e\<close> for integers \<open>m\<close> and \<open>e\<close> (every double is of
  this form), or it is \<open>NaN\<close> or an infinity. \<open>ms n\<close> is the whole number \<open>n\<close>.
\<close>

datatype jsnumber = Finite int int | NaN | PosInfinity | NegInfinity

definition ms :: "int \<Rightarrow> jsnumber" where
  "ms n = Finite n 0"

text \<open>The test \<open>clearAfterMs > 0\<close>.\<close>

definition gt_zero :: "jsnumber \<Rightarrow> bool" where
  "gt_zero x = (case x of Finite m e \<Rightarrow> 0 < m | PosInfinity \<Rightarrow> True | _ \<Rightarrow> False)"

text \<open>
  \<open>setTimeout\<close> takes its delay as a \<open>long\<close>: \<open>NaN\<close> and the infinities become 0, a finite
  number loses its fraction (towards zero) and is read modulo \<open>2 ^ 32\<close> as a signed 32-bit
  value; a negative delay then counts as 0.
\<close>

definition integer_part :: "int \<Rightarrow> int \<Rightarrow> int" where
  "integer_part m e =
     (if 0 \<le> e then m * 2 ^ nat e
      else if 0 \<le> m then m div 2 ^ nat (- e)
      else - ((- m) div 2 ^ nat (- e)))"

definition to_long :: "jsnumber \<Rightarrow> int" where
  "to_long x =
     (case x of
        Finite m e \<Rightarrow>
          (let r = integer_part m e mod 4294967296 in
           if 2147483648 \<le> r then r - 4294967296 else r)
      | _ \<Rightarrow> 0)"

definition timer_delay :: "jsnumber \<Rightarrow> int" where
  "timer_delay x = max 0 (to_long x)"

text \<open>
  The world of the clipboard: its content, the clock in milliseconds, the pending timers of
  \<open>setTimeout\<close>, each with its due time and the \<open>text\<close> its closure captured, and whether
  \<open>navigator.clipboard\<close> at this moment grants a write and a read (permission and focus are
  the environment's and may change between two calls). A call that is not granted rejects
  with \<open>NotAllowedError\<close>.
\<close>

record clip_world =
  clipboard :: jsstring
  clock :: int
  timers :: "(int \<times> jsstring) list"
  write_granted :: bool
  read_granted :: bool

definition writeText :: "clip_world \<Rightarrow> jsstring \<Rightarrow> error + clip_world" where
  "writeText w t = (if write_granted w then Inr (w\<lparr>clipboard := t\<rparr>) else Inl NotAllowedError)"

definition readText :: "clip_world \<Rightarrow> error + jsstring" where
  "readText w = (if read_granted w then Inr (clipboard w) else Inl NotAllowedError)"

definition setTimeout :: "clip_world \<Rightarrow> jsstring \<Rightarrow> jsnumber \<Rightarrow> clip_world" where
  "setTimeout w captured delay =
     w\<lparr>timers := timers w @ [(clock w + timer_delay delay, captured)]\<rparr>"

text \<open>
  \<open>secureClipboardCopy\<close> awaits the write and has no \<open>try\<close>: when the write rejects, the
  function rejects before it reaches \<open>setTimeout\<close>. \<open>copy_schedule\<close> is what follows the
  \<open>await\<close>, in the world it finds then; \<open>secureClipboardCopy\<close> is the call when no other
  task runs in between.
\<close>

definition copy_schedule :: "clip_world \<Rightarrow> jsstring \<Rightarrow> jsnumber \<Rightarrow> clip_world" where
  "copy_schedule w text_arg clearAfterMs =
     (if gt_zero clearAfterMs then setTimeout w text_arg clearAfterMs else w)"

definition secureClipboardCopy ::
  "clip_world \<Rightarrow> jsstring \<Rightarrow> jsnumber \<Rightarrow> (error + unit) \<times> clip_world" where
  "secureClipboardCopy w text_arg clearAfterMs =
     (case writeText w text_arg of
        Inl e \<Rightarrow> (Inl e, w)
      | Inr w1 \<Rightarrow> (Inr (), copy_schedule w1 text_arg clearAfterMs))"

text \<open>
  The callback given to \<open>setTimeout\<close> awaits twice. \<open>callback_read\<close> is the callback up to
  its \<open>if\<close>: the read and the comparison with the captured text. \<open>callback_clear\<close> is the
  branch, \<open>writeText('')\<close>; it runs in the world it finds when the read has settled, which
  other tasks may have changed. \<open>timer_callback\<close> is the callback when no other task runs
  between the two.
\<close>

definition callback_read :: "jsstring \<Rightarrow> clip_world \<Rightarrow> error + bool" where
  "callback_read captured w = bindE (readText w) (\<lambda>current. Inr (current = captured))"

definition callback_clear :: "clip_world \<Rightarrow> (error + unit) \<times> clip_world" where
  "callback_clear w = (case writeText w [] of Inl e \<Rightarrow> (Inl e, w) | Inr w1 \<Rightarrow> (Inr (), w1))"

definition timer_callback :: "jsstring \<Rightarrow> clip_world \<Rightarrow> (error + unit) \<times> clip_world" where
  "timer_callback captured w =
     (case callback_read captured w of
        Inl e \<Rightarrow> (Inl e, w)
      | Inr same \<Rightarrow> if same then callback_clear w else (Inr (), w))"

text \<open>The event loop: moving the clock to \<open>t\<close> runs the callbacks that are due, in the
  order they were scheduled in, each without interruption, and removes them.\<close>

fun run_due :: "int \<Rightarrow> (int \<times> jsstring) list \<Rightarrow> clip_world \<Rightarrow> clip_world" where
  "run_due t [] w = w"
| "run_due t ((due, captured) # rest) w =
     (if due \<le> t then run_due t rest (snd (timer_callback captured w)) else run_due t rest w)"

definition advance_to :: "int \<Rightarrow> clip_world \<Rightarrow> clip_world" where
  "advance_to t w =
     (let due = sort_key fst (filter (\<lambda>p. fst p \<le> t) (timers w));
          w1 = w\<lparr>clock := t, timers := filter (\<lambda>p. \<not> fst p \<le> t) (timers w)\<rparr>
      in run_due t due w1)"

section \<open>\<open>AuthContext\<close>: the session key manager\<close>

type_synonym uid = jsstring

record EncryptionProfile =
  ep_salt :: jsstring
  ep_verifier :: jsstring
  ep_kdf :: jsstring
  ep_iterations :: nat
  ep_hash :: jsstring

text \<open>The profile document; \<open>encryption\<close> is \<open>None\<close> when the field is absent, and reading a
  field of it then throws a \<open>TypeError\<close>.\<close>

record profile_doc =
  displayName :: jsstring
  email :: jsstring
  createdAt :: jsstring
  encryption :: "EncryptionProfile option"

text \<open>Firebase, the external identity and document service: every call may reject;
  \<open>getDoc\<close> gives \<open>None\<close> for a document that does not exist.\<close>

record firebase =
  createUserWithEmailAndPassword :: "jsstring \<Rightarrow> jsstring \<Rightarrow> error + uid"
  signInWithEmailAndPassword :: "jsstring \<Rightarrow> jsstring \<Rightarrow> error + uid"
  signOut :: "error + unit"
  getDoc :: "uid \<Rightarrow> error + profile_doc option"
  setDoc :: "uid \<Rightarrow> profile_doc \<Rightarrow> error + unit"
  toISOString :: jsstring

record 'k auth_state =
  user :: "uid option"
  loading :: bool
  encryptionKey :: "'k option"
  isUnlocked :: bool

definition initial_state :: "'k auth_state" where
  "initial_state = \<lparr>user = None, loading = True, encryptionKey = None, isUnlocked = False\<rparr>"

text \<open>The callback of \<open>onAuthStateChanged\<close>.\<close>

definition authStateChanged :: "'k auth_state \<Rightarrow> uid option \<Rightarrow> 'k auth_state" where
  "authStateChanged st u =
     (let st1 = st\<lparr>user := u, loading := False\<rparr> in
      if u = None then st1\<lparr>encryptionKey := None, isUnlocked := False\<rparr> else st1)"

text \<open>\<open>email.split('@')[0]\<close>.\<close>

definition before_at :: "jsstring \<Rightarrow> jsstring" where
  "before_at e = takeWhile (\<lambda>c. c \<noteq> 0x40) e"

definition signUp_body ::
  "('m, 'k) platform \<Rightarrow> firebase \<Rightarrow> (nat \<Rightarrow> byte) \<Rightarrow> 'k auth_state \<Rightarrow>
   jsstring \<Rightarrow> jsstring \<Rightarrow> jsstring \<Rightarrow> error + 'k auth_state" where
  "signUp_body P F rnd st em password masterPassword =
     bindE (createUserWithEmailAndPassword F em password)
       (\<lambda>uid. let salt = generateSalt rnd in
          bindE (generateVerifier P masterPassword salt)
            (\<lambda>verifier. bindE (arrayBufferToBase64 salt)
               (\<lambda>saltText.
                  let encryptionProfile = \<lparr>ep_salt = saltText, ep_verifier = verifier,
                        ep_kdf = lit ''PBKDF2'', ep_iterations = 200000,
                        ep_hash = lit ''SHA-256''\<rparr> in
                  bindE (setDoc F uid \<lparr>displayName = before_at em, email = em,
                           createdAt = toISOString F, encryption = Some encryptionProfile\<rparr>)
                    (\<lambda>_. bindE (deriveKey P masterPassword salt)
                       (\<lambda>key. Inr (st\<lparr>encryptionKey := Some key, isUnlocked := True\<rparr>))))))"

text \<open>An operation returns what its promise settles to, and the state it leaves.\<close>

definition signUp ::
  "('m, 'k) platform \<Rightarrow> firebase \<Rightarrow> (nat \<Rightarrow> byte) \<Rightarrow> 'k auth_state \<Rightarrow>
   jsstring \<Rightarrow> jsstring \<Rightarrow> jsstring \<Rightarrow> (error + unit) \<times> 'k auth_state" where
  "signUp P F rnd st em password masterPassword =
     (case signUp_body P F rnd st em password masterPassword of
        Inl e \<Rightarrow> (Inl e, st)
      | Inr st' \<Rightarrow> (Inr (), st'))"

definition signIn ::
  "firebase \<Rightarrow> 'k auth_state \<Rightarrow> jsstring \<Rightarrow> jsstring \<Rightarrow> (error + unit) \<times> 'k auth_state" where
  "signIn F st em password =
     (bindE (signInWithEmailAndPassword F em password) (\<lambda>_. Inr ()), st)"

definition logout :: "firebase \<Rightarrow> 'k auth_state \<Rightarrow> (error + unit) \<times> 'k auth_state" where
  "logout F st = (signOut F, st\<lparr>encryptionKey := None, isUnlocked := False\<rparr>)"

definition lockVault :: "'k auth_state \<Rightarrow> 'k auth_state" where
  "lockVault st = st\<lparr>encryptionKey := None, isUnlocked := False\<rparr>"

text \<open>The \<open>try\<close> block of \<open>unlockVault\<close> for the signed-in user \<open>u\<close>: the value returned and
  the state left, or the exception thrown.\<close>

definition unlockVault_try ::
  "('m, 'k) platform \<Rightarrow> firebase \<Rightarrow> 'k auth_state \<Rightarrow> uid \<Rightarrow> jsstring \<Rightarrow>
   error + bool \<times> 'k auth_state" where
  "unlockVault_try P F st u masterPassword =
     bindE (getDoc F u)
       (\<lambda>profileDoc. case profileDoc of
            None \<Rightarrow> Inr (False, st)
          | Some profile \<Rightarrow>
             (case encryption profile of
                None \<Rightarrow> Inl TypeError
              | Some enc \<Rightarrow>
                 bindE (base64ToArrayBuffer (ep_salt enc))
                   (\<lambda>saltBuffer.
                      bindE (verifyMasterPassword P masterPassword saltBuffer (ep_verifier enc))
                        (\<lambda>isValid.
                           if isValid
                           then bindE (deriveKey P masterPassword saltBuffer)
                                  (\<lambda>key. Inr (True, st\<lparr>encryptionKey := Some key,
                                                          isUnlocked := True\<rparr>))
                           else Inr (False, st)))))"

definition unlockVault ::
  "('m, 'k) platform \<Rightarrow> firebase \<Rightarrow> 'k auth_state \<Rightarrow> jsstring \<Rightarrow>
   (error + bool) \<times> 'k auth_state" where
  "unlockVault P F st masterPassword =
     (case user st of
        None \<Rightarrow> (Inr False, st)
      | Some u \<Rightarrow>
         (case unlockVault_try P F st u masterPassword of
            Inr (b, st') \<Rightarrow> (Inr b, st')
          | Inl e \<Rightarrow> (Inr False, st)))"

section \<open>\<open>Passwords\<close>: decrypting a snapshot\<close>

text \<open>
  \<open>JSON.parse\<close> is a parameter: it gives a value or throws a \<open>SyntaxError\<close>. Reading a
  property of \<open>null\<close> throws a \<open>TypeError\<close>; an object gives the property or \<open>undefined\<close>
  (\<open>None\<close>); every other value has none of the properties read here.
\<close>

datatype json =
    JNull
  | JBool bool
  | JNum int
  | JStr jsstring
  | JArr "json list"
  | JObj "(jsstring \<times> json) list"

definition get_prop :: "json \<Rightarrow> jsstring \<Rightarrow> error + json option" where
  "get_prop v name =
     (case v of
        JNull \<Rightarrow> Inl TypeError
      | JObj kvs \<Rightarrow> Inr (map_of kvs name)
      | _ \<Rightarrow> Inr None)"

record EncryptedPasswordDoc =
  epd_id :: jsstring
  epd_title :: jsstring
  epd_ciphertext :: jsstring
  epd_iv :: jsstring
  epd_tags :: "jsstring list option"
  epd_createdAt :: jsstring
  epd_updatedAt :: jsstring

record PasswordEntry =
  pe_id :: jsstring
  pe_title :: jsstring
  pe_username :: "json option"
  pe_password :: "json option"
  pe_url :: "json option"
  pe_notes :: "json option"
  pe_tags :: "jsstring list"
  pe_createdAt :: jsstring
  pe_updatedAt :: jsstring

text \<open>The \<open>try\<close> block of the loop, for one document: the entry it pushes, or the exception
  it throws.\<close>

definition decrypt_entry ::
  "('m, 'k) platform \<Rightarrow> (jsstring \<Rightarrow> error + json) \<Rightarrow> 'k \<Rightarrow> EncryptedPasswordDoc \<Rightarrow>
   error + PasswordEntry" where
  "decrypt_entry P parse key d =
     bindE (decryptData P (epd_ciphertext d) (epd_iv d) key)
       (\<lambda>decryptedJson. bindE (parse decryptedJson)
          (\<lambda>decrypted. bindE (get_prop decrypted (lit ''username''))
             (\<lambda>un. bindE (get_prop decrypted (lit ''password''))
                (\<lambda>pw. bindE (get_prop decrypted (lit ''url''))
                   (\<lambda>ur. bindE (get_prop decrypted (lit ''notes''))
                      (\<lambda>no. Inr \<lparr>pe_id = epd_id d, pe_title = epd_title d,
                                  pe_username = un, pe_password = pw, pe_url = ur,
                                  pe_notes = no,
                                  pe_tags = (case epd_tags d of None \<Rightarrow> [] | Some t \<Rightarrow> t),
                                  pe_createdAt = epd_createdAt d,
                                  pe_updatedAt = epd_updatedAt d\<rparr>))))))"

text \<open>The loop over \<open>snapshot.docs\<close>: \<open>decryptedPasswords\<close> grows by the entries pushed, the
  console by the errors caught.\<close>

fun snapshot_loop ::
  "('m, 'k) platform \<Rightarrow> (jsstring \<Rightarrow> error + json) \<Rightarrow> 'k \<Rightarrow> EncryptedPasswordDoc list \<Rightarrow>
   PasswordEntry list \<times> error list \<Rightarrow> PasswordEntry list \<times> error list" where
  "snapshot_loop P parse key [] acc = acc"
| "snapshot_loop P parse key (d # ds) acc =
     (case decrypt_entry P parse key d of
        Inr e \<Rightarrow> snapshot_loop P parse key ds (fst acc @ [e], snd acc)
      | Inl err \<Rightarrow> snapshot_loop P parse key ds (fst acc, snd acc @ [err]))"

definition onSnapshot ::
  "('m, 'k) platform \<Rightarrow> (jsstring \<Rightarrow> error + json) \<Rightarrow> 'k \<Rightarrow> EncryptedPasswordDoc list \<Rightarrow>
   PasswordEntry list \<times> error list" where
  "onSnapshot P parse key docs = snapshot_loop P parse key docs ([], [])"

definition entry_of ::
  "('m, 'k) platform \<Rightarrow> (jsstring \<Rightarrow> error + json) \<Rightarrow> 'k \<Rightarrow> EncryptedPasswordDoc \<Rightarrow>
   PasswordEntry option" where
  "entry_of P parse key d =
     (case decrypt_entry P parse key d of Inr e \<Rightarrow> Some e | Inl err \<Rightarrow> None)"

section \<open>An instance of the primitives\<close>

text \<open>
  A small authenticated cipher, to run the model on concrete inputs: the key is the
  password followed by the salt, sealing adds a mask made of key and nonce to every byte
  and appends sixteen bytes of it as the tag, opening checks the tag.
\<close>

definition toy_mask :: "byte list \<Rightarrow> byte list \<Rightarrow> byte" where
  "toy_mask k n = sum_list (k @ n) + 1"

definition toy_encrypt :: "byte list \<Rightarrow> byte list \<Rightarrow> byte list \<Rightarrow> error + byte list" where
  "toy_encrypt k n p = Inr (map (\<lambda>b. b + toy_mask k n) p @ replicate 16 (toy_mask k n))"

definition toy_decrypt :: "byte list \<Rightarrow> byte list \<Rightarrow> byte list \<Rightarrow> error + byte list" where
  "toy_decrypt k n c =
     (if 16 \<le> length c \<and> drop (length c - 16) c = replicate 16 (toy_mask k n)
      then Inr (map (\<lambda>b. b - toy_mask k n) (take (length c - 16) c))
      else Inl OperationError)"

definition toy :: "(byte list, byte list) platform" where
  "toy = \<lparr>importKey = (\<lambda>pw. Inr pw),
          subtle_deriveKey = (\<lambda>salt iterations material len. Inr (material @ salt)),
          aes_gcm_encrypt = toy_encrypt,
          aes_gcm_decrypt = toy_decrypt\<rparr>"

definition zero_rnd :: "nat \<Rightarrow> byte" where
  "zero_rnd i = 0"

definition count_rnd :: "nat \<Rightarrow> byte" where
  "count_rnd i = of_nat i"

text \<open>A scalar value: a code point that is not a surrogate.\<close>

definition scalar_ok :: "nat \<Rightarrow> bool" where
  "scalar_ok cp = (cp < 0x110000 \<and> \<not> (0xD800 \<le> cp \<and> cp \<le> 0xDFFF))"

section \<open>Properties of the session state\<close>

text \<open>A session key exists exactly when the vault is unlocked.\<close>

definition key_iff_unlocked :: "'k auth_state \<Rightarrow> bool" where
  "key_iff_unlocked st = ((encryptionKey st \<noteq> None) = isUnlocked st)"

text \<open>The candidate password verifies against the profile stored for the user \<open>u\<close>: the
  document exists, has its encryption profile, the salt is base64, and
  \<open>verifyMasterPassword\<close> returns \<open>true\<close>.\<close>

definition verification_succeeds ::
  "('m, 'k) platform \<Rightarrow> firebase \<Rightarrow> uid \<Rightarrow> jsstring \<Rightarrow> bool" where
  "verification_succeeds P F u masterPassword =
     (case getDoc F u of
        Inl e \<Rightarrow> False
      | Inr None \<Rightarrow> False
      | Inr (Some profile) \<Rightarrow>
         (case encryption profile of
            None \<Rightarrow> False
          | Some enc \<Rightarrow>
             (case base64ToArrayBuffer (ep_salt enc) of
                Inl e \<Rightarrow> False
              | Inr saltBuffer \<Rightarrow>
                 verifyMasterPassword P masterPassword saltBuffer (ep_verifier enc) = Inr True)))"

section \<open>An instance of Firebase\<close>

text \<open>One registered user, \<open>u1\<close>, whose profile holds the salt of sixteen bytes \<open>1\<close> and the
  verifier of the master password \<open>pw\<close> under the cipher above.\<close>

definition sample_profile :: profile_doc where
  "sample_profile =
     \<lparr>displayName = lit ''ann'', email = lit ''ann@example.org'',
      createdAt = lit ''2024-01-01T00:00:00.000Z'',
      encryption = Some \<lparr>ep_salt = b64_encode (replicate 16 1),
                          ep_verifier = b64_encode ([78, 61, 74, 65, 62, 81] @ replicate 16 248),
                          ep_kdf = lit ''PBKDF2'', ep_iterations = 200000,
                          ep_hash = lit ''SHA-256''\<rparr>\<rparr>"

definition sample_firebase :: firebase where
  "sample_firebase =
     \<lparr>createUserWithEmailAndPassword = (\<lambda>em pw. Inr (lit ''u2'')),
      signInWithEmailAndPassword = (\<lambda>em pw. Inr (lit ''u1'')),
      signOut = Inr (),
      getDoc = (\<lambda>u. if u = lit ''u1'' then Inr (Some sample_profile) else Inr None),
      setDoc = (\<lambda>u d. Inr ()),
      toISOString = lit ''2024-01-01T00:00:00.000Z''\<rparr>"

definition locked_u1 :: "byte list auth_state" where
  "locked_u1 = \<lparr>user = Some (lit ''u1''), loading = False, encryptionKey = None,
                 isUnlocked = False\<rparr>"

definition unlocked_u1 :: "byte list auth_state" where
  "unlocked_u1 = \<lparr>user = Some (lit ''u1''), loading = False,
                   encryptionKey = Some ([0x70, 0x77] @ replicate 16 1), isUnlocked = True\<rparr>"

section \<open>Properties of the password generator\<close>

text \<open>The characters a password may contain, in the words of the specification: the union
  of the character sets of the enabled classes, and the alphanumeric characters when no
  class is enabled.\<close>

definition allowed_chars :: "gen_options \<Rightarrow> code_unit set" where
  "allowed_chars options =
     (if \<not> enabled (uppercase options) \<and> \<not> enabled (lowercase options)
         \<and> \<not> enabled (numbers options) \<and> \<not> enabled (symbols options)
      then set FALLBACK
      else (if enabled (uppercase options) then set UPPERCASE else {})
         \<union> (if enabled (lowercase options) then set LOWERCASE else {})
         \<union> (if enabled (numbers options) then set NUMBERS else {})
         \<union> (if enabled (symbols options) then set SYMBOLS else {}))"

definition upper_digits :: gen_options where
  "upper_digits = \<lparr>uppercase = Some True, lowercase = Some False, numbers = Some True,
                    symbols = Some False\<rparr>"

definition sample_rnd32 :: "nat \<Rightarrow> 32 word" where
  "sample_rnd32 i = of_nat (i * 2654435761 + 12345)"

section \<open>Sample documents of a snapshot\<close>

text \<open>A parser that knows one text, the empty object; and two documents under the key
  \<open>[1, 2, 3]\<close> of the cipher above: one sealing \<open>{}\<close>, one whose tag was altered.\<close>

definition sample_parse :: "jsstring \<Rightarrow> error + json" where
  "sample_parse s = (if s = lit ''{}'' then Inr (JObj []) else Inl SyntaxError)"

definition good_doc :: EncryptedPasswordDoc where
  "good_doc = \<lparr>epd_id = lit ''a'', epd_title = lit ''mail'',
                epd_ciphertext = b64_encode ([0x82, 0x84] @ replicate 16 7),
                epd_iv = b64_encode (replicate 12 0), epd_tags = None,
                epd_createdAt = lit ''2024-01-01'', epd_updatedAt = lit ''2024-01-02''\<rparr>"

definition bad_doc :: EncryptedPasswordDoc where
  "bad_doc = \<lparr>epd_id = lit ''b'', epd_title = lit ''bank'',
               epd_ciphertext = b64_encode ([0x82, 0x84] @ replicate 16 8),
               epd_iv = b64_encode (replicate 12 0), epd_tags = Some [lit ''money''],
               epd_createdAt = lit ''2024-01-03'', epd_updatedAt = lit ''2024-01-04''\<rparr>"

definition good_entry :: PasswordEntry where
  "good_entry = \<lparr>pe_id = lit ''a'', pe_title = lit ''mail'', pe_username = None,
                  pe_password = None, pe_url = None, pe_notes = None, pe_tags = [],
                  pe_createdAt = lit ''2024-01-01'', pe_updatedAt = lit ''2024-01-02''\<rparr>"

section \<open>A sample clipboard\<close>

text \<open>A clipboard that grants reads and writes, one that refuses writes, and one that holds
  \<open>secret1\<close> and refuses reads.\<close>

definition clip_start :: clip_world where
  "clip_start = \<lparr>clipboard = lit ''old'', clock = 0, timers = [], write_granted = True,
                  read_granted = True\<rparr>"

definition clip_no_write :: clip_world where
  "clip_no_write = \<lparr>clipboard = lit ''old'', clock = 0, timers = [], write_granted = False,
                     read_granted = True\<rparr>"

definition clip_no_read :: clip_world where
  "clip_no_read = \<lparr>clipboard = lit ''secret1'', clock = 100, timers = [],
                    write_granted = True, read_granted = False\<rparr>"

section \<open>Lemmas on the base64 helpers\<close>

lemma bindE_Inr [simp]: "bindE (Inr x) f = f x"
  by (simp add: bindE_def)

lemma bindE_Inl [simp]: "bindE (Inl e) f = Inl e"
  by (simp add: bindE_def)

lemma byte_lt: "unat (a :: byte) < 256"
  using unsigned_less[of a, where ?'a = nat] by simp

lemma toUint8_fromCharCode [simp]: "toUint8 (fromCharCode b) = b"
  unfolding toUint8_def fromCharCode_def
  by (simp add: ucast_down_ucast_id is_down)

lemma unat_fromCharCode: "unat (fromCharCode b) = unat b"
proof -
  have "unat b < 2 ^ 16" using byte_lt[of b] by simp
  then show ?thesis
    unfolding fromCharCode_def by (simp add: unsigned_ucast_eq take_bit_nat_eq_self)
qed

lemma arrayBufferToBase64_loop_eq:
  "arrayBufferToBase64_loop bytes i acc = acc @ map fromCharCode (drop i bytes)"
proof (induction bytes i acc rule: arrayBufferToBase64_loop.induct)
  case (1 bytes i binary)
  show ?case
  proof (cases "i < length bytes")
    case True
    then show ?thesis
      using 1 by (subst arrayBufferToBase64_loop.simps) (simp add: Cons_nth_drop_Suc[symmetric])
  next
    case False
    then show ?thesis by (subst arrayBufferToBase64_loop.simps) simp
  qed
qed

lemma base64ToArrayBuffer_loop_eq:
  "i \<le> length binary \<Longrightarrow> length bytes = length binary \<Longrightarrow>
   base64ToArrayBuffer_loop binary i bytes = take i bytes @ map toUint8 (drop i binary)"
proof (induction binary i bytes rule: base64ToArrayBuffer_loop.induct)
  case (1 binary i bytes)
  show ?case
  proof (cases "i < length binary")
    case True
    have "base64ToArrayBuffer_loop binary i bytes
        = base64ToArrayBuffer_loop binary (i + 1) (bytes[i := toUint8 (binary ! i)])"
      using True by (subst base64ToArrayBuffer_loop.simps) simp
    also have "\<dots> = take (i + 1) (bytes[i := toUint8 (binary ! i)]) @ map toUint8 (drop (i + 1) binary)"
      using True 1 by simp
    also have "\<dots> = take i bytes @ map toUint8 (drop i binary)"
      using True 1(3) by (simp add: take_Suc_conv_app_nth Cons_nth_drop_Suc[symmetric])
    finally show ?thesis .
  next
    case False
    then show ?thesis using 1(2,3) by (subst base64ToArrayBuffer_loop.simps) simp
  qed
qed

lemma fromCharCode_small: "\<not> list_ex (\<lambda>c. 255 < unat c) (map fromCharCode b)"
proof (induction b)
  case Nil
  show ?case by simp
next
  case (Cons x xs)
  have "unat (fromCharCode x) < 256" unfolding unat_fromCharCode by (rule byte_lt)
  then have "\<not> 255 < unat (fromCharCode x)" by linarith
  then show ?case using Cons by simp
qed

lemma toUint8_map: "map toUint8 (map fromCharCode b) = b"
  by (induction b) simp_all

lemma arrayBufferToBase64_eq: "arrayBufferToBase64 b = Inr (b64_encode b)"
proof -
  have l: "arrayBufferToBase64_loop b 0 [] = map fromCharCode b"
    by (simp only: arrayBufferToBase64_loop_eq drop_0 append_Nil)
  show ?thesis
    unfolding arrayBufferToBase64_def btoa_def l
    by (simp only: fromCharCode_small toUint8_map if_False)
qed

lemma recombine1: "n div 262144 * 64 + n div 4096 mod 64 = (n::nat) div 4096"
proof -
  have b: "n div 262144 = n div 4096 div 64" by (simp add: div_mult2_eq[symmetric])
  show ?thesis unfolding b by (simp add: div_mult_mod_eq)
qed

lemma recombine2:
  "(n div 262144 * 64 + n div 4096 mod 64) * 64 + n div 64 mod 64 = (n::nat) div 64"
proof -
  have a: "n div 4096 = n div 64 div 64" by (simp add: div_mult2_eq[symmetric])
  show ?thesis unfolding recombine1 unfolding a by (simp add: div_mult_mod_eq)
qed

lemma recombine3:
  "((n div 262144 * 64 + n div 4096 mod 64) * 64 + n div 64 mod 64) * 64 + n mod 64 = (n::nat)"
  unfolding recombine2 by (simp add: div_mult_mod_eq)

lemma split3:
  assumes "a < 256" "b < 256" "c < (256::nat)"
  shows "(a * 65536 + b * 256 + c) div 65536 = a"
    "(a * 65536 + b * 256 + c) div 256 mod 256 = b"
    "(a * 65536 + b * 256 + c) mod 256 = c"
proof -
  have "b * 256 + c < 65536" using assms by simp
  then show "(a * 65536 + b * 256 + c) div 65536 = a" by simp
  have "(a * 65536 + b * 256 + c) div 256 = a * 256 + b" using assms by simp
  then show "(a * 65536 + b * 256 + c) div 256 mod 256 = b" using assms by simp
  have e: "a * 65536 + b * 256 + c = c + 256 * (a * 256 + b)" by simp
  show "(a * 65536 + b * 256 + c) mod 256 = c"
    unfolding e using assms(3) by (simp only: mod_mult_self2 mod_less)
qed

lemma split2:
  assumes "a < 256" "b < (256::nat)"
  shows "(a * 65536 + b * 256) div 64 div 4 div 256 = a"
    "(a * 65536 + b * 256) div 64 div 4 mod 256 = b"
proof -
  have "(a * 65536 + b * 256) div 64 div 4 = (a * 65536 + b * 256) div 256"
    by (simp add: div_mult2_eq[symmetric])
  also have "\<dots> = a * 256 + b" by simp
  finally have e: "(a * 65536 + b * 256) div 64 div 4 = a * 256 + b" .
  show "(a * 65536 + b * 256) div 64 div 4 div 256 = a" unfolding e using assms by simp
  show "(a * 65536 + b * 256) div 64 div 4 mod 256 = b" unfolding e using assms by simp
qed

lemma split1: "(a * 65536) div 4096 div 16 = (a::nat)"
  by (simp add: div_mult2_eq[symmetric])

lemma sextets:
  assumes "n < (16777216::nat)"
  shows "n div 262144 < 64" "n div 4096 mod 64 < 64" "n div 64 mod 64 < 64" "n mod 64 < 64"
  using assms by simp_all

lemma b64_index_char: "i < 64 \<Longrightarrow> b64_index (b64_char i) = Some i"
  by (auto simp: b64_index_def b64_char_def Let_def unat_of_nat)

lemma b64_ok_char: "i < 64 \<Longrightarrow> b64_ok (b64_char i)"
  by (simp add: b64_ok_def b64_index_char)

lemma b64_ok_not_pad: "b64_ok c \<Longrightarrow> c \<noteq> 0x3D"
  by (auto simp: b64_ok_def b64_index_def)

lemma b64_ok_not_ws: "b64_ok c \<Longrightarrow> \<not> ascii_whitespace c"
  by (auto simp: b64_ok_def b64_index_def ascii_whitespace_def)

lemma group_bound3: "unat (a::byte) * 65536 + unat (b::byte) * 256 + unat (c::byte) < 16777216"
  using byte_lt[of a] byte_lt[of b] byte_lt[of c] by simp

lemma group_bound2: "unat (a::byte) * 65536 + unat (b::byte) * 256 < 16777216"
  using byte_lt[of a] byte_lt[of b] by simp

lemma group_bound1: "unat (a::byte) * 65536 < 16777216"
  using byte_lt[of a] by simp

lemma length_quad [simp]: "length (b64_quad n) = 4"
  by (simp add: b64_quad_def)

lemma quad_ok: "n < 16777216 \<Longrightarrow> list_all b64_ok (b64_quad n)"
  using sextets[of n] by (simp add: b64_quad_def b64_ok_char)

lemma list_all_take: "list_all P xs \<Longrightarrow> list_all P (take k xs)"
  by (auto simp: list_all_iff dest: in_set_takeD)

lemma body_ok: "list_all b64_ok (b64_body bs)"
proof (induction bs rule: b64_body.induct)
  case (1 a b c rest)
  then show ?case using quad_ok[OF group_bound3[of a b c]] by simp
next
  case (2 a b)
  show ?case using list_all_take[OF quad_ok[OF group_bound2[of a b]]] by simp
next
  case (3 a)
  show ?case using list_all_take[OF quad_ok[OF group_bound1[of a]]] by simp
next
  case 4
  show ?case by simp
qed


lemma encode_body:
  "b64_encode bs = b64_body bs @ replicate ((3 - length bs mod 3) mod 3) 0x3D"
proof (induction bs rule: b64_body.induct)
  case (1 a b c rest)
  have "length (a # b # c # rest) mod 3 = length rest mod 3" by simp
  then show ?case using 1 by (simp del: length_Cons)
next
  case (2 a b)
  show ?case by (simp add: numeral_2_eq_2)
next
  case (3 a)
  show ?case by (simp add: numeral_2_eq_2)
next
  case 4
  show ?case by simp
qed

lemma length_encode: "length (b64_encode bs) mod 4 = 0"
  by (induction bs rule: b64_body.induct) simp_all

lemma length_body: "length (b64_body bs) mod 4 \<noteq> 1"
  by (induction bs rule: b64_body.induct) simp_all

lemma remove_padding_body:
  assumes "list_all b64_ok body" "k \<le> 2" "length (body @ replicate k 0x3D) mod 4 = 0"
  shows "remove_padding (body @ replicate k 0x3D) = body"
proof -
  have nl: "last body \<noteq> 0x3D" if "body \<noteq> []"
  proof -
    have "last body \<in> set body" using that by simp
    then have "b64_ok (last body)" using assms(1) by (simp add: list_all_iff)
    then show ?thesis by (rule b64_ok_not_pad)
  qed
  consider "k = 0" | "k = 1" | "k = 2" using assms(2) by arith
  then show ?thesis
  proof cases
    case 1
    then show ?thesis using nl by (auto simp: remove_padding_def)
  next
    case 2
    then show ?thesis using nl assms(3) by (auto simp: remove_padding_def Let_def)
  next
    case 3
    then have r: "replicate k (0x3D::code_unit) = [0x3D, 0x3D]" by (simp add: numeral_2_eq_2)
    have b: "butlast (body @ [0x3D, 0x3D::code_unit]) = body @ [0x3D]"
      by (simp add: butlast_append)
    show ?thesis using nl assms(3) unfolding r remove_padding_def Let_def b by auto
  qed
qed

lemma index_quad:
  assumes "n < 16777216"
  shows "map (\<lambda>c. the (b64_index c)) (b64_quad n)
         = [n div 262144, n div 4096 mod 64, n div 64 mod 64, n mod 64]"
  using sextets[OF assms] by (simp add: b64_quad_def b64_index_char)

lemma of_nat_unat_byte: "of_nat (unat (a::byte)) = a"
  by simp

lemma decode_quad:
  "b64_decode_groups
     (map (\<lambda>c. the (b64_index c)) (b64_quad (unat a * 65536 + unat b * 256 + unat c)) @ rest)
   = [a, b, c] @ b64_decode_groups rest"
proof -
  define n where "n = unat a * 65536 + unat b * 256 + unat c"
  have nb: "n < 16777216" unfolding n_def by (rule group_bound3)
  have d: "n div 65536 = unat a" "n div 256 mod 256 = unat b" "n mod 256 = unat c"
    unfolding n_def using split3[OF byte_lt[of a] byte_lt[of b] byte_lt[of c]] by blast+
  show ?thesis
    unfolding n_def[symmetric] index_quad[OF nb]
    by (simp only: append_Cons append_Nil b64_decode_groups.simps Let_def recombine3 d
        of_nat_unat_byte)
qed

lemma decode_triple:
  "b64_decode_groups
     (map (\<lambda>c. the (b64_index c)) (take 3 (b64_quad (unat a * 65536 + unat b * 256))))
   = [a, b]"
proof -
  define n where "n = unat a * 65536 + unat b * 256"
  have nb: "n < 16777216" unfolding n_def by (rule group_bound2)
  have d: "n div 64 div 4 div 256 = unat a" "n div 64 div 4 mod 256 = unat b"
    unfolding n_def using split2[OF byte_lt[of a] byte_lt[of b]] by blast+
  have t: "take 3 [n div 262144, n div 4096 mod 64, n div 64 mod 64, n mod 64]
           = [n div 262144, n div 4096 mod 64, n div 64 mod 64]"
    by (simp add: numeral_3_eq_3)
  show ?thesis
    unfolding n_def[symmetric] take_map[symmetric] index_quad[OF nb] t
    by (simp only: b64_decode_groups.simps Let_def recombine2 d of_nat_unat_byte)
qed

lemma decode_pair:
  "b64_decode_groups (map (\<lambda>c. the (b64_index c)) (take 2 (b64_quad (unat a * 65536)))) = [a]"
proof -
  define n where "n = unat a * 65536"
  have nb: "n < 16777216" unfolding n_def by (rule group_bound1)
  have d: "n div 4096 div 16 = unat a" unfolding n_def by (rule split1)
  have t: "take 2 [n div 262144, n div 4096 mod 64, n div 64 mod 64, n mod 64]
           = [n div 262144, n div 4096 mod 64]"
    by (simp add: numeral_2_eq_2)
  show ?thesis
    unfolding n_def[symmetric] take_map[symmetric] index_quad[OF nb] t
    by (simp only: b64_decode_groups.simps Let_def recombine1 d of_nat_unat_byte)
qed

lemma decode_body: "b64_decode_groups (map (\<lambda>c. the (b64_index c)) (b64_body bs)) = bs"
proof (induction bs rule: b64_body.induct)
  case (1 a b c rest)
  show ?case
    by (simp only: b64_body.simps map_append decode_quad 1 append_Cons append_Nil)
next
  case (2 a b)
  show ?case by (simp only: b64_body.simps decode_triple)
next
  case (3 a)
  show ?case by (simp only: b64_body.simps decode_pair)
next
  case 4
  show ?case by simp
qed


lemma filter_encode: "filter (\<lambda>c. \<not> ascii_whitespace c) (b64_encode bs) = b64_encode bs"
proof -
  have "\<not> ascii_whitespace c" if "c \<in> set (b64_encode bs)" for c
  proof -
    from that have "c \<in> set (b64_body bs) \<or> c = 0x3D"
      unfolding encode_body by auto
    then show ?thesis
    proof
      assume "c \<in> set (b64_body bs)"
      then have "b64_ok c" using body_ok[of bs] by (simp add: list_all_iff)
      then show ?thesis by (rule b64_ok_not_ws)
    next
      assume "c = 0x3D"
      then show ?thesis by (simp add: ascii_whitespace_def)
    qed
  qed
  then show ?thesis by (simp add: filter_id_conv)
qed

lemma remove_padding_encode: "remove_padding (b64_encode bs) = b64_body bs"
proof -
  have k: "(3 - length bs mod 3) mod 3 \<le> 2" by arith
  have l: "length (b64_body bs @ replicate ((3 - length bs mod 3) mod 3) 0x3D) mod 4 = 0"
    using length_encode[of bs] unfolding encode_body .
  show ?thesis
    unfolding encode_body by (rule remove_padding_body[OF body_ok k l])
qed

lemma atob_encode: "atob (b64_encode bs) = Inr (map fromCharCode bs)"
proof -
  have v: "\<not> list_ex (\<lambda>c. b64_index c = None) (b64_body bs)"
    using body_ok[of bs] by (simp add: list_ex_iff list_all_iff b64_ok_def)
  show ?thesis
    unfolding atob_def filter_encode remove_padding_encode Let_def
    using length_body[of bs] v by (simp add: decode_body)
qed

lemma base64ToArrayBuffer_encode: "base64ToArrayBuffer (b64_encode bs) = Inr bs"
proof -
  have "base64ToArrayBuffer_loop (map fromCharCode bs) 0
          (replicate (length (map fromCharCode bs)) 0)
        = map toUint8 (map fromCharCode bs)"
    by (subst base64ToArrayBuffer_loop_eq) simp_all
  then have "base64ToArrayBuffer_loop (map fromCharCode bs) 0
          (replicate (length (map fromCharCode bs)) 0) = bs"
    unfolding toUint8_map .
  then show ?thesis
    unfolding base64ToArrayBuffer_def atob_encode by (simp only: bindE_Inr)
qed

text \<open>
  C10: for every byte sequence \<open>b\<close>, \<open>arrayBufferToBase64\<close> returns a string, and
  \<open>base64ToArrayBuffer\<close> of that string returns a buffer equal to \<open>b\<close> byte for byte.
\<close>

theorem base64_roundtrip: "bindE (arrayBufferToBase64 b) base64ToArrayBuffer = Inr b"
  unfolding arrayBufferToBase64_eq by (simp add: base64ToArrayBuffer_encode)

section \<open>Lemmas on the text codec\<close>

lemma unat_byte_of_nat: "n < 256 \<Longrightarrow> unat (to_byte n) = n"
  by (simp add: to_byte_def unat_of_nat)

lemma mod_offset: "r < m \<Longrightarrow> (k * m + r) mod m = (r::nat)"
  by simp

lemma mod_offsets:
  "q < 32 \<Longrightarrow> (192 + q) mod 32 = (q::nat)"
  "q < 16 \<Longrightarrow> (224 + q) mod 16 = (q::nat)"
  "q < 8 \<Longrightarrow> (240 + q) mod 8 = (q::nat)"
  "q < 64 \<Longrightarrow> (128 + q) mod 64 = (q::nat)"
  using mod_offset[of q 32 6] mod_offset[of q 16 14] mod_offset[of q 8 30] mod_offset[of q 64 2]
  by simp_all

lemma decode_first:
  "utf8_decode ds_init (b # bs) = fst (utf8_first b) @ utf8_decode (snd (utf8_first b)) bs"
  by (simp add: ds_init_def)

lemma first_ascii: "b \<le> 0x7F \<Longrightarrow> utf8_first b = ([b], ds_init)"
  by (simp add: utf8_first_def)

lemma first_two:
  "2 \<le> q \<Longrightarrow> q < 32 \<Longrightarrow>
   utf8_first (0xC0 + q) = ([], ds_init\<lparr>ds_needed := 1, ds_cp := q\<rparr>)"
  by (simp add: utf8_first_def mod_offsets)

lemma first_three:
  "q < 16 \<Longrightarrow>
   utf8_first (0xE0 + q) =
     ([], ds_init\<lparr>ds_needed := 2, ds_cp := q,
                  ds_lower := (if q = 0 then 0xA0 else 0x80),
                  ds_upper := (if q = 13 then 0x9F else 0xBF)\<rparr>)"
  by (simp add: utf8_first_def mod_offsets)

lemma first_four:
  "q < 5 \<Longrightarrow>
   utf8_first (0xF0 + q) =
     ([], ds_init\<lparr>ds_needed := 3, ds_cp := q,
                  ds_lower := (if q = 0 then 0x90 else 0x80),
                  ds_upper := (if q = 4 then 0x8F else 0xBF)\<rparr>)"
  by (simp add: utf8_first_def mod_offsets)

lemma cont_more:
  assumes "ds_needed st \<noteq> 0" "ds_lower st \<le> 0x80 + r" "0x80 + r \<le> ds_upper st" "r < 64"
    "ds_seen st + 1 \<noteq> ds_needed st"
  shows "utf8_decode st ((0x80 + r) # bs) =
         utf8_decode (st\<lparr>ds_cp := ds_cp st * 64 + r, ds_seen := ds_seen st + 1,
                          ds_lower := 0x80, ds_upper := 0xBF\<rparr>) bs"
proof -
  have m: "(0x80 + r) mod 64 = r"
    using assms(4) by (simp add: mod_offsets)
  show ?thesis using assms(1,2,3,5) by (simp add: m not_less)
qed

lemma cont_last:
  assumes "ds_needed st \<noteq> 0" "ds_lower st \<le> 0x80 + r" "0x80 + r \<le> ds_upper st" "r < 64"
    "ds_seen st + 1 = ds_needed st"
  shows "utf8_decode st ((0x80 + r) # bs) = (ds_cp st * 64 + r) # utf8_decode ds_init bs"
proof -
  have m: "(0x80 + r) mod 64 = r"
    using assms(4) by (simp add: mod_offsets)
  show ?thesis using assms(1,2,3,5) by (simp add: m not_less)
qed


lemma div64_split: "(n::nat) div 64 = n div 4096 * 64 + n div 64 mod 64"
proof -
  have "n div 4096 = n div 64 div 64" by (simp add: div_mult2_eq[symmetric])
  then show ?thesis by (simp add: div_mult_mod_eq)
qed

lemma three_bounds:
  assumes "0x800 \<le> (cp::nat)" "cp < 0x10000" "\<not> (0xD800 \<le> cp \<and> cp \<le> 0xDFFF)"
  shows "cp div 4096 < 16"
    and "cp div 4096 = 0 \<Longrightarrow> 32 \<le> cp div 64 mod 64"
    and "cp div 4096 = 13 \<Longrightarrow> cp div 64 mod 64 < 32"
proof -
  show "cp div 4096 < 16" using assms(2) by simp
  show "32 \<le> cp div 64 mod 64" if "cp div 4096 = 0"
  proof -
    have "cp div 64 = cp div 64 mod 64" using div64_split[of cp] that by simp
    moreover have "32 \<le> cp div 64" using assms(1) by simp
    ultimately show ?thesis by simp
  qed
  show "cp div 64 mod 64 < 32" if "cp div 4096 = 13"
  proof -
    have e: "cp div 64 = 832 + cp div 64 mod 64" using div64_split[of cp] that by simp
    have "cp div 4096 < 14" using that by simp
    then have "cp < 0xE000" by (simp add: div_less_iff_less_mult)
    then have "cp < 0xD800" using assms(3) by simp
    then have "cp div 64 < 864" by simp
    then show ?thesis using e by linarith
  qed
qed

lemma four_bounds:
  assumes "0x10000 \<le> (cp::nat)" "cp < 0x110000"
  shows "cp div 262144 < 5"
    and "cp div 262144 = 0 \<Longrightarrow> 16 \<le> cp div 4096 mod 64"
    and "cp div 262144 = 4 \<Longrightarrow> cp div 4096 mod 64 < 16"
proof -
  have s: "cp div 4096 = cp div 262144 * 64 + cp div 4096 mod 64"
    using recombine1[of cp] by simp
  show "cp div 262144 < 5" using assms(2) by simp
  show "16 \<le> cp div 4096 mod 64" if "cp div 262144 = 0"
  proof -
    have "16 \<le> cp div 4096" using assms(1) by simp
    then show ?thesis using s that by simp
  qed
  show "cp div 4096 mod 64 < 16" if "cp div 262144 = 4"
  proof -
    have "cp div 4096 < 272" using assms(2) by simp
    then show ?thesis using s that by linarith
  qed
qed


lemma encode_bytes:
  "cp < 0x80 \<Longrightarrow> map unat (utf8_encode_cp cp) = [cp]"
  "0x80 \<le> cp \<Longrightarrow> cp < 0x800 \<Longrightarrow>
     map unat (utf8_encode_cp cp) = [0xC0 + cp div 64, 0x80 + cp mod 64]"
  "0x800 \<le> cp \<Longrightarrow> cp < 0x10000 \<Longrightarrow>
     map unat (utf8_encode_cp cp) =
       [0xE0 + cp div 4096, 0x80 + cp div 64 mod 64, 0x80 + cp mod 64]"
  "0x10000 \<le> cp \<Longrightarrow> cp < 0x110000 \<Longrightarrow>
     map unat (utf8_encode_cp cp) =
       [0xF0 + cp div 262144, 0x80 + cp div 4096 mod 64, 0x80 + cp div 64 mod 64,
        0x80 + cp mod 64]"
proof -
  have r: "0x80 + n mod 64 < (256::nat)" for n
  proof -
    have "n mod 64 < 64" by simp
    then show ?thesis by linarith
  qed
  show "map unat (utf8_encode_cp cp) = [cp]" if "cp < 0x80"
    using that by (simp add: utf8_encode_cp_def unat_byte_of_nat)
  show "map unat (utf8_encode_cp cp) = [0xC0 + cp div 64, 0x80 + cp mod 64]"
    if "0x80 \<le> cp" "cp < 0x800"
  proof -
    have "cp div 64 < 32" using that(2) by simp
    then have "0xC0 + cp div 64 < 256" by simp
    then show ?thesis
      using that r[of cp] by (simp add: utf8_encode_cp_def unat_byte_of_nat)
  qed
  show "map unat (utf8_encode_cp cp) =
       [0xE0 + cp div 4096, 0x80 + cp div 64 mod 64, 0x80 + cp mod 64]"
    if "0x800 \<le> cp" "cp < 0x10000"
  proof -
    have "cp div 4096 < 16" using that(2) by simp
    then have "0xE0 + cp div 4096 < 256" by simp
    then show ?thesis
      using that r[of cp] r[of "cp div 64"] by (simp add: utf8_encode_cp_def unat_byte_of_nat)
  qed
  show "map unat (utf8_encode_cp cp) =
       [0xF0 + cp div 262144, 0x80 + cp div 4096 mod 64, 0x80 + cp div 64 mod 64,
        0x80 + cp mod 64]"
    if "0x10000 \<le> cp" "cp < 0x110000"
  proof -
    have "cp div 262144 < 5" using that(2) by simp
    then have "0xF0 + cp div 262144 < 256" by simp
    then show ?thesis
      using that r[of cp] r[of "cp div 64"] r[of "cp div 4096"]
      by (simp add: utf8_encode_cp_def unat_byte_of_nat)
  qed
qed

lemma decode_encode_cp:
  assumes "scalar_ok cp"
  shows "utf8_decode ds_init (map unat (utf8_encode_cp cp) @ bs) = cp # utf8_decode ds_init bs"
proof -
  consider "cp < 0x80" | "0x80 \<le> cp" "cp < 0x800" | "0x800 \<le> cp" "cp < 0x10000"
    | "0x10000 \<le> cp" "cp < 0x110000"
    using assms unfolding scalar_ok_def by linarith
  then show ?thesis
  proof cases
    case 1
    then show ?thesis by (simp add: encode_bytes(1) decode_first first_ascii del: utf8_decode.simps)
  next
    case 2
    have q: "2 \<le> cp div 64" "cp div 64 < 32" using 2 by simp_all
    have "utf8_decode ds_init (map unat (utf8_encode_cp cp) @ bs)
        = utf8_decode (ds_init\<lparr>ds_needed := 1, ds_cp := cp div 64\<rparr>) ((0x80 + cp mod 64) # bs)"
      by (simp add: encode_bytes(2)[OF 2] decode_first first_two[OF q] del: utf8_decode.simps)
    also have "\<dots> = (cp div 64 * 64 + cp mod 64) # utf8_decode ds_init bs"
      using q by (subst cont_last) (simp_all add: ds_init_def)
    finally show ?thesis by (simp add: div_mult_mod_eq)
  next
    case 3
    have ns: "\<not> (0xD800 \<le> cp \<and> cp \<le> 0xDFFF)" using assms unfolding scalar_ok_def by simp
    note b = three_bounds[OF 3 ns]
    let ?st = "ds_init\<lparr>ds_needed := 2, ds_cp := cp div 4096,
                  ds_lower := (if cp div 4096 = 0 then 0xA0 else 0x80),
                  ds_upper := (if cp div 4096 = 13 then 0x9F else 0xBF)\<rparr>"
    have "utf8_decode ds_init (map unat (utf8_encode_cp cp) @ bs)
        = utf8_decode ?st ((0x80 + cp div 64 mod 64) # (0x80 + cp mod 64) # bs)"
      by (simp add: encode_bytes(3)[OF 3] decode_first first_three[OF b(1)] del: utf8_decode.simps)
    also have "\<dots> = utf8_decode (?st\<lparr>ds_cp := ds_cp ?st * 64 + cp div 64 mod 64,
                           ds_seen := ds_seen ?st + 1, ds_lower := 0x80, ds_upper := 0xBF\<rparr>)
                         ((0x80 + cp mod 64) # bs)"
    proof (rule cont_more)
      show "ds_lower ?st \<le> 0x80 + cp div 64 mod 64" using b(2) by (simp add: ds_init_def)
      have "cp div 64 mod 64 < 64" by simp
      then have "cp div 64 mod 64 \<le> 63" by linarith
      then show "0x80 + cp div 64 mod 64 \<le> ds_upper ?st"
        using b(3) by (auto simp: ds_init_def)
    qed (simp_all add: ds_init_def)
    also have "\<dots> = ((cp div 4096 * 64 + cp div 64 mod 64) * 64 + cp mod 64)
                        # utf8_decode ds_init bs"
      by (subst cont_last) (simp_all add: ds_init_def)
    finally show ?thesis by (simp add: div64_split[symmetric] div_mult_mod_eq)
  next
    case 4
    note b = four_bounds[OF 4]
    let ?st = "ds_init\<lparr>ds_needed := 3, ds_cp := cp div 262144,
                  ds_lower := (if cp div 262144 = 0 then 0x90 else 0x80),
                  ds_upper := (if cp div 262144 = 4 then 0x8F else 0xBF)\<rparr>"
    let ?st1 = "?st\<lparr>ds_cp := ds_cp ?st * 64 + cp div 4096 mod 64,
                           ds_seen := ds_seen ?st + 1, ds_lower := 0x80, ds_upper := 0xBF\<rparr>"
    have "utf8_decode ds_init (map unat (utf8_encode_cp cp) @ bs)
        = utf8_decode ?st ((0x80 + cp div 4096 mod 64) # (0x80 + cp div 64 mod 64)
                            # (0x80 + cp mod 64) # bs)"
      by (simp add: encode_bytes(4)[OF 4] decode_first first_four[OF b(1)] del: utf8_decode.simps)
    also have "\<dots> = utf8_decode ?st1 ((0x80 + cp div 64 mod 64) # (0x80 + cp mod 64) # bs)"
    proof (rule cont_more)
      show "ds_lower ?st \<le> 0x80 + cp div 4096 mod 64" using b(2) by (simp add: ds_init_def)
      have "cp div 4096 mod 64 < 64" by simp
      then have "cp div 4096 mod 64 \<le> 63" by linarith
      then show "0x80 + cp div 4096 mod 64 \<le> ds_upper ?st"
        using b(3) by (auto simp: ds_init_def)
    qed (simp_all add: ds_init_def)
    also have "\<dots> = utf8_decode (?st1\<lparr>ds_cp := ds_cp ?st1 * 64 + cp div 64 mod 64,
                           ds_seen := ds_seen ?st1 + 1, ds_lower := 0x80, ds_upper := 0xBF\<rparr>)
                         ((0x80 + cp mod 64) # bs)"
      by (intro cont_more) (simp_all add: ds_init_def)
    also have "\<dots> = (((cp div 262144 * 64 + cp div 4096 mod 64) * 64 + cp div 64 mod 64) * 64
                         + cp mod 64) # utf8_decode ds_init bs"
      by (subst cont_last) (simp_all add: ds_init_def)
    finally show ?thesis by (simp only: recombine3)
  qed
qed


lemma unit_lt: "unat (c :: code_unit) < 65536"
  using unsigned_less[of c, where ?'a = nat] by simp

lemma pair_scalar:
  assumes "is_high c" "is_low d"
  shows "0x10000 \<le> 0x10000 + (unat c - 0xD800) * 1024 + (unat d - 0xDC00)"
    and "0x10000 + (unat c - 0xD800) * 1024 + (unat d - 0xDC00) < 0x110000"
    and "(0x10000 + (unat c - 0xD800) * 1024 + (unat d - 0xDC00) - 0x10000) div 1024
         = unat c - 0xD800"
    and "(0x10000 + (unat c - 0xD800) * 1024 + (unat d - 0xDC00) - 0x10000) mod 1024
         = unat d - 0xDC00"
proof -
  have h: "unat c - 0xD800 < 1024" using assms(1) unfolding is_high_def by linarith
  have l: "unat d - 0xDC00 < 1024" using assms(2) unfolding is_low_def by linarith
  show "0x10000 \<le> 0x10000 + (unat c - 0xD800) * 1024 + (unat d - 0xDC00)" by simp
  show "0x10000 + (unat c - 0xD800) * 1024 + (unat d - 0xDC00) < 0x110000"
    using h l by linarith
  show "(0x10000 + (unat c - 0xD800) * 1024 + (unat d - 0xDC00) - 0x10000) div 1024
         = unat c - 0xD800"
    using l by simp
  show "(0x10000 + (unat c - 0xD800) * 1024 + (unat d - 0xDC00) - 0x10000) mod 1024
         = unat d - 0xDC00"
    using l by simp
qed

lemma scalar_ok_replacement: "scalar_ok 0xFFFD"
  by (simp add: scalar_ok_def)

lemma scalar_ok_unit: "\<not> is_surrogate c \<Longrightarrow> scalar_ok (unat c)"
  using unit_lt[of c] by (simp add: scalar_ok_def is_surrogate_def)

lemma scalar_ok_pair:
  "is_high c \<Longrightarrow> is_low d \<Longrightarrow>
   scalar_ok (0x10000 + (unat c - 0xD800) * 1024 + (unat d - 0xDC00))"
  using pair_scalar(1,2)[of c d] unfolding scalar_ok_def by linarith

lemma to_scalars_ok: "list_all scalar_ok (to_scalars s)"
proof (induction s rule: to_scalars.induct)
  case 1
  show ?case by simp
next
  case (2 c)
  show ?case by (simp add: scalar_ok_replacement scalar_ok_unit)
next
  case (3 c d rest)
  show ?case
  proof (cases "is_high c \<and> is_low d")
    case True
    then show ?thesis using 3 by (simp add: scalar_ok_pair)
  next
    case False
    then show ?thesis
      using 3 by (cases "is_surrogate c") (auto simp: scalar_ok_replacement scalar_ok_unit)
  qed
qed

lemma decode_encode_list:
  "list_all scalar_ok cps \<Longrightarrow>
   utf8_decode ds_init (map unat (concat (map utf8_encode_cp cps))) = cps"
proof (induction cps)
  case Nil
  show ?case by (simp add: ds_init_def)
next
  case (Cons cp cps)
  then show ?case by (simp add: decode_encode_cp del: utf8_decode.simps)
qed

lemma from_scalar_unit: "\<not> is_surrogate c \<Longrightarrow> from_scalar (unat c) = [c]"
  using unit_lt[of c] by (simp add: from_scalar_def)

lemma from_scalar_pair:
  assumes "is_high c" "is_low d"
  shows "from_scalar (0x10000 + (unat c - 0xD800) * 1024 + (unat d - 0xDC00)) = [c, d]"
proof -
  have c: "0xD800 + (unat c - 0xD800) = unat c" using assms(1) unfolding is_high_def by linarith
  have d: "0xDC00 + (unat d - 0xDC00) = unat d" using assms(2) unfolding is_low_def by linarith
  show ?thesis
    unfolding from_scalar_def using pair_scalar[OF assms]
    by (simp only: not_less[symmetric] if_False c d of_nat_unat ucast_id)
qed


lemma high_surrogate: "is_high c \<Longrightarrow> is_surrogate c"
  by (simp add: is_high_def is_surrogate_def)

lemma from_to_scalars: "well_formed s \<Longrightarrow> concat (map from_scalar (to_scalars s)) = s"
proof (induction s rule: to_scalars.induct)
  case 1
  show ?case by simp
next
  case (2 c)
  then show ?case by (simp add: from_scalar_unit)
next
  case (3 c d rest)
  show ?case
  proof (cases "is_high c")
    case True
    then have "is_low d" "well_formed rest" using 3(4) by simp_all
    then show ?thesis using True 3(1) by (simp add: from_scalar_pair)
  next
    case False
    then have "\<not> is_surrogate c" "well_formed (d # rest)" using 3(4) by simp_all
    then show ?thesis using False 3(3) by (simp add: from_scalar_unit)
  qed
qed

lemma unat_bom: "unat (c :: code_unit) = 0xFEFF \<Longrightarrow> c = 0xFEFF"
proof -
  assume "unat c = 0xFEFF"
  then have "of_nat (unat c) = (of_nat 0xFEFF :: code_unit)" by simp
  then show ?thesis by simp
qed

lemma strip_bom_scalars: "\<not> starts_with_bom s \<Longrightarrow> strip_bom (to_scalars s) = to_scalars s"
proof (cases s rule: to_scalars.cases)
  case 1
  then show ?thesis by (simp add: strip_bom_def)
next
  case (2 c)
  assume "\<not> starts_with_bom s"
  then have "unat c \<noteq> 0xFEFF" using 2 unat_bom[of c] by (auto simp: starts_with_bom_def)
  then show ?thesis using 2 by (simp add: strip_bom_def)
next
  case (3 c d rest)
  assume "\<not> starts_with_bom s"
  then have "unat c \<noteq> 0xFEFF" using 3 unat_bom[of c] by (auto simp: starts_with_bom_def)
  then show ?thesis using 3 by (simp add: strip_bom_def)
qed

lemma text_codec:
  "TextDecoder_decode (TextEncoder_encode s) = concat (map from_scalar (strip_bom (to_scalars s)))"
  unfolding TextDecoder_decode_def TextEncoder_encode_def
  by (simp only: decode_encode_list[OF to_scalars_ok])

lemma text_roundtrip:
  assumes "well_formed s" "\<not> starts_with_bom s"
  shows "TextDecoder_decode (TextEncoder_encode s) = s"
  unfolding text_codec
  by (simp only: strip_bom_scalars[OF assms(2)] from_to_scalars[OF assms(1)])

lemma verify_marker: "TextDecoder_decode (TextEncoder_encode (lit ''VERIFY'')) = lit ''VERIFY''"
proof (rule text_roundtrip)
  show "well_formed (lit ''VERIFY'')" by (simp add: lit_def is_high_def is_surrogate_def)
  show "\<not> starts_with_bom (lit ''VERIFY'')" by (simp add: lit_def starts_with_bom_def)
qed

lemma bom_lost: "TextDecoder_decode (TextEncoder_encode [0xFEFF]) = []"
  unfolding text_codec by (simp add: is_surrogate_def strip_bom_def)

lemma surrogate_lost: "TextDecoder_decode (TextEncoder_encode [0xD800]) = [0xFFFD]"
  unfolding text_codec by (simp add: is_surrogate_def strip_bom_def from_scalar_def)

section \<open>The envelope cipher and the verifier\<close>

lemma toy_aead_correct: "aead_correct toy"
  by (simp add: aead_correct_def toy_def toy_encrypt_def toy_decrypt_def comp_def)

lemma encryptData_Inr:
  assumes "encryptData P rnd data key = Inr c"
  shows "\<exists>enc. aes_gcm_encrypt P key (generateIV rnd) (TextEncoder_encode data) = Inr enc
           \<and> c = \<lparr>ciphertext = b64_encode enc, iv = b64_encode (generateIV rnd)\<rparr>"
  using assms
  by (cases "aes_gcm_encrypt P key (generateIV rnd) (TextEncoder_encode data)")
     (auto simp: encryptData_def Let_def arrayBufferToBase64_eq)

lemma decryptData_encoded:
  "decryptData P (b64_encode enc) (b64_encode ivb) key =
     bindE (aes_gcm_decrypt P key ivb enc) (\<lambda>d. Inr (TextDecoder_decode d))"
  by (simp add: decryptData_def base64ToArrayBuffer_encode)

lemma decrypt_encrypt:
  assumes "aead_correct P" "encryptData P rnd data key = Inr c"
  shows "decryptData P (ciphertext c) (iv c) key
         = Inr (TextDecoder_decode (TextEncoder_encode data))"
proof -
  obtain enc where e: "aes_gcm_encrypt P key (generateIV rnd) (TextEncoder_encode data) = Inr enc"
    and c: "c = \<lparr>ciphertext = b64_encode enc, iv = b64_encode (generateIV rnd)\<rparr>"
    using encryptData_Inr[OF assms(2)] by blast
  have "aes_gcm_decrypt P key (generateIV rnd) enc = Inr (TextEncoder_encode data)"
    using assms(1) e unfolding aead_correct_def by blast
  then show ?thesis unfolding c by (simp add: decryptData_encoded)
qed

text \<open>
  C1, as amended: for every AES-GCM key and every plaintext string that is well formed (no
  surrogate stands alone) and does not begin with \<open>U+FEFF\<close>, decrypting the pair produced by
  \<open>encryptData\<close> returns exactly the plaintext.
\<close>

theorem encrypt_decrypt_roundtrip:
  assumes "aead_correct P" "well_formed data" "\<not> starts_with_bom data"
    and "encryptData P rnd data key = Inr c"
  shows "decryptData P (ciphertext c) (iv c) key = Inr data"
  using decrypt_encrypt[OF assms(1,4)] text_roundtrip[OF assms(2,3)] by simp


lemma generateIV_zero: "generateIV zero_rnd = replicate 12 0"
proof -
  have z: "zero_rnd = (\<lambda>i. 0)" by (rule ext) (simp add: zero_rnd_def)
  show ?thesis unfolding generateIV_def IV_LENGTH_def z by (simp add: map_replicate_const)
qed

lemma toy_fields [simp]:
  "aes_gcm_encrypt toy = toy_encrypt" "aes_gcm_decrypt toy = toy_decrypt"
  "importKey toy pw = Inr pw" "subtle_deriveKey toy salt n m l = Inr (m @ salt)"
  by (simp_all add: toy_def)

lemma encode_bom: "TextEncoder_encode [0xFEFF] = [0xEF, 0xBB, 0xBF]"
  by (simp add: TextEncoder_encode_def is_surrogate_def utf8_encode_cp_def to_byte_def)

lemma encode_hi: "TextEncoder_encode (lit ''hi'') = [0x68, 0x69]"
  by (simp add: TextEncoder_encode_def lit_def is_surrogate_def is_high_def utf8_encode_cp_def to_byte_def)

lemma toy_seal_bom:
  "encryptData toy zero_rnd [0xFEFF] [1, 2, 3]
   = Inr \<lparr>ciphertext = b64_encode ([0xF6, 0xC2, 0xC6] @ replicate 16 7),
           iv = b64_encode (replicate 12 0)\<rparr>"
  by (simp add: encryptData_def generateIV_zero encode_bom arrayBufferToBase64_eq
      toy_encrypt_def toy_mask_def sum_list_replicate)

lemma toy_seal_hi:
  "encryptData toy zero_rnd (lit ''hi'') [1, 2, 3]
   = Inr \<lparr>ciphertext = b64_encode ([0x6F, 0x70] @ replicate 16 7),
           iv = b64_encode (replicate 12 0)\<rparr>"
  by (simp add: encryptData_def generateIV_zero encode_hi arrayBufferToBase64_eq
      toy_encrypt_def toy_mask_def sum_list_replicate)

theorem encrypt_decrypt_roundtrip_witness:
  "aead_correct toy \<and> well_formed (lit ''hi'') \<and> \<not> starts_with_bom (lit ''hi'')
   \<and> encryptData toy zero_rnd (lit ''hi'') [1, 2, 3]
       = Inr \<lparr>ciphertext = b64_encode ([0x6F, 0x70] @ replicate 16 7),
               iv = b64_encode (replicate 12 0)\<rparr>
   \<and> decryptData toy (b64_encode ([0x6F, 0x70] @ replicate 16 7))
         (b64_encode (replicate 12 0)) [1, 2, 3] = Inr (lit ''hi'')"
proof -
  have w: "well_formed (lit ''hi'')" by (simp add: lit_def is_high_def is_surrogate_def)
  have b: "\<not> starts_with_bom (lit ''hi'')" by (simp add: lit_def starts_with_bom_def)
  show ?thesis
    using encrypt_decrypt_roundtrip[OF toy_aead_correct w b toy_seal_hi] toy_aead_correct w b
      toy_seal_hi
    by simp
qed

lemma encode_lone_surrogate: "TextEncoder_encode [0xD800] = [0xEF, 0xBF, 0xBD]"
  by (simp add: TextEncoder_encode_def is_surrogate_def utf8_encode_cp_def to_byte_def)

lemma toy_seal_lone_surrogate:
  "encryptData toy zero_rnd [0xD800] [1, 2, 3]
   = Inr \<lparr>ciphertext = b64_encode ([0xF6, 0xC6, 0xC4] @ replicate 16 7),
           iv = b64_encode (replicate 12 0)\<rparr>"
  by (simp add: encryptData_def generateIV_zero encode_lone_surrogate arrayBufferToBase64_eq
      toy_encrypt_def toy_mask_def sum_list_replicate)

text \<open>
  C1 as stated fails: the text encoder and decoder of the platform do not give back every
  string. A string that begins with \<open>U+FEFF\<close> comes back without it, and a surrogate
  that stands alone comes back as \<open>U+FFFD\<close>.
\<close>

theorem encrypt_decrypt_counterexample:
  "encryptData toy zero_rnd [0xFEFF] [1, 2, 3]
     = Inr \<lparr>ciphertext = b64_encode ([0xF6, 0xC2, 0xC6] @ replicate 16 7),
             iv = b64_encode (replicate 12 0)\<rparr>
   \<and> decryptData toy (b64_encode ([0xF6, 0xC2, 0xC6] @ replicate 16 7))
         (b64_encode (replicate 12 0)) [1, 2, 3] = Inr []
   \<and> [] \<noteq> [0xFEFF :: code_unit]
   \<and> encryptData toy zero_rnd [0xD800] [1, 2, 3]
     = Inr \<lparr>ciphertext = b64_encode ([0xF6, 0xC6, 0xC4] @ replicate 16 7),
             iv = b64_encode (replicate 12 0)\<rparr>
   \<and> decryptData toy (b64_encode ([0xF6, 0xC6, 0xC4] @ replicate 16 7))
         (b64_encode (replicate 12 0)) [1, 2, 3] = Inr [0xFFFD]
   \<and> [0xFFFD] \<noteq> [0xD800 :: code_unit]"
proof -
  have "decryptData toy (b64_encode ([0xF6, 0xC2, 0xC6] @ replicate 16 7))
         (b64_encode (replicate 12 0)) [1, 2, 3]
        = Inr (TextDecoder_decode (TextEncoder_encode [0xFEFF]))"
    using decrypt_encrypt[OF toy_aead_correct toy_seal_bom] by simp
  moreover have "decryptData toy (b64_encode ([0xF6, 0xC6, 0xC4] @ replicate 16 7))
         (b64_encode (replicate 12 0)) [1, 2, 3]
        = Inr (TextDecoder_decode (TextEncoder_encode [0xD800]))"
    using decrypt_encrypt[OF toy_aead_correct toy_seal_lone_surrogate] by simp
  ultimately show ?thesis
    using toy_seal_bom toy_seal_lone_surrogate bom_lost surrogate_lost by simp
qed

lemma bindE_eq_Inr: "bindE m f = Inr y \<longleftrightarrow> (\<exists>x. m = Inr x \<and> f x = Inr y)"
  by (cases m) simp_all

lemma generateVerifier_Inr:
  assumes "generateVerifier P pw salt = Inr v"
  shows "\<exists>key enc. deriveKey P pw salt = Inr key
           \<and> aes_gcm_encrypt P key (replicate IV_LENGTH 0) (TextEncoder_encode (lit ''VERIFY''))
               = Inr enc
           \<and> v = b64_encode enc"
  using assms
  by (auto simp: generateVerifier_def Let_def bindE_eq_Inr arrayBufferToBase64_eq)

lemma generateVerifier_returns:
  assumes "deriveKey P pw salt = Inr key"
    and "aes_gcm_encrypt P key (replicate IV_LENGTH 0) (TextEncoder_encode (lit ''VERIFY''))
         = Inr enc"
  shows "generateVerifier P pw salt = Inr (b64_encode enc)"
  using assms by (simp add: generateVerifier_def arrayBufferToBase64_eq)

lemma verify_of_generate:
  assumes "aead_correct P" "generateVerifier P pw salt = Inr v"
  shows "verifyMasterPassword P pw salt v = Inr True"
proof -
  obtain key enc where k: "deriveKey P pw salt = Inr key"
    and e: "aes_gcm_encrypt P key (replicate IV_LENGTH 0) (TextEncoder_encode (lit ''VERIFY''))
            = Inr enc"
    and v: "v = b64_encode enc"
    using generateVerifier_Inr[OF assms(2)] by blast
  have d: "aes_gcm_decrypt P key (replicate IV_LENGTH 0) enc
           = Inr (TextEncoder_encode (lit ''VERIFY''))"
    using assms(1) e unfolding aead_correct_def by blast
  have "verifyMasterPassword_try P pw salt v = Inr True"
    unfolding verifyMasterPassword_try_def v
    by (simp add: k d base64ToArrayBuffer_encode verify_marker)
  then show ?thesis by (simp add: verifyMasterPassword_def)
qed

text \<open>
  C2: for every password and every salt, the verifier that \<open>generateVerifier\<close> returns is
  accepted by \<open>verifyMasterPassword\<close> for the same password and salt.
\<close>

theorem verifier_validates:
  assumes "aead_correct P" "generateVerifier P pw salt = Inr v"
  shows "verifyMasterPassword P pw salt v = Inr True"
  using assms by (rule verify_of_generate)

lemma encode_pw: "TextEncoder_encode (lit ''pw'') = [0x70, 0x77]"
  by (simp add: TextEncoder_encode_def lit_def is_surrogate_def is_high_def utf8_encode_cp_def
      to_byte_def)

lemma encode_VERIFY:
  "TextEncoder_encode (lit ''VERIFY'') = [0x56, 0x45, 0x52, 0x49, 0x46, 0x59]"
  by (simp add: TextEncoder_encode_def lit_def is_surrogate_def is_high_def utf8_encode_cp_def
      to_byte_def)

lemma toy_deriveKey: "deriveKey toy pw salt = Inr (TextEncoder_encode pw @ salt)"
  by (simp add: deriveKey_def)

lemma toy_verifier:
  "generateVerifier toy (lit ''pw'') (replicate 16 1)
   = Inr (b64_encode ([78, 61, 74, 65, 62, 81] @ replicate 16 248))"
  by (simp add: generateVerifier_def toy_deriveKey encode_pw encode_VERIFY IV_LENGTH_def
      arrayBufferToBase64_eq toy_encrypt_def toy_mask_def sum_list_replicate)

theorem verifier_validates_witness:
  "aead_correct toy
   \<and> generateVerifier toy (lit ''pw'') (replicate 16 1)
       = Inr (b64_encode ([78, 61, 74, 65, 62, 81] @ replicate 16 248))
   \<and> verifyMasterPassword toy (lit ''pw'') (replicate 16 1)
         (b64_encode ([78, 61, 74, 65, 62, 81] @ replicate 16 248)) = Inr True"
  using verifier_validates[OF toy_aead_correct toy_verifier] toy_aead_correct toy_verifier
  by simp

text \<open>
  C3, as amended: for every password, salt and stored verifier, \<open>verifyMasterPassword\<close>
  returns a boolean and never throws; it returns \<open>true\<close> exactly when the key is derived,
  the stored verifier is base64, AES-GCM opens it, and the text decoded from the opened bytes
  (as UTF-8, a leading byte order mark dropped) is the marker \<open>VERIFY\<close>: a failure to open
  and a decoded text other than the marker both give \<open>false\<close>.
\<close>

theorem verifyMasterPassword_total:
  "(\<exists>b. verifyMasterPassword P pw salt sv = Inr b)
   \<and> (verifyMasterPassword P pw salt sv = Inr True \<longleftrightarrow>
        (\<exists>key enc dec. deriveKey P pw salt = Inr key
           \<and> base64ToArrayBuffer sv = Inr enc
           \<and> aes_gcm_decrypt P key (replicate IV_LENGTH 0) enc = Inr dec
           \<and> TextDecoder_decode dec = lit ''VERIFY''))"
proof
  show "\<exists>b. verifyMasterPassword P pw salt sv = Inr b"
    by (cases "verifyMasterPassword_try P pw salt sv") (auto simp: verifyMasterPassword_def)
next
  have "verifyMasterPassword P pw salt sv = Inr True
        \<longleftrightarrow> verifyMasterPassword_try P pw salt sv = Inr True"
    by (cases "verifyMasterPassword_try P pw salt sv") (simp_all add: verifyMasterPassword_def)
  also have "\<dots> \<longleftrightarrow> (\<exists>key enc dec. deriveKey P pw salt = Inr key
           \<and> base64ToArrayBuffer sv = Inr enc
           \<and> aes_gcm_decrypt P key (replicate IV_LENGTH 0) enc = Inr dec
           \<and> TextDecoder_decode dec = lit ''VERIFY'')"
    by (auto simp: verifyMasterPassword_try_def bindE_eq_Inr Let_def)
  finally show "verifyMasterPassword P pw salt sv = Inr True \<longleftrightarrow>
        (\<exists>key enc dec. deriveKey P pw salt = Inr key
           \<and> base64ToArrayBuffer sv = Inr enc
           \<and> aes_gcm_decrypt P key (replicate IV_LENGTH 0) enc = Inr dec
           \<and> TextDecoder_decode dec = lit ''VERIFY'')" .
qed


lemma encode_no: "TextEncoder_encode (lit ''no'') = [0x6E, 0x6F]"
  by (simp add: TextEncoder_encode_def lit_def is_surrogate_def is_high_def utf8_encode_cp_def
      to_byte_def)

lemma toy_wrong_key:
  "toy_decrypt ([0x6E, 0x6F] @ replicate 16 1) (replicate IV_LENGTH 0)
     ([78, 61, 74, 65, 62, 81] @ replicate 16 248) = Inl OperationError"
  by (simp add: toy_decrypt_def toy_mask_def IV_LENGTH_def sum_list_replicate)

theorem verifyMasterPassword_total_witness:
  "verifyMasterPassword toy (lit ''no'') (replicate 16 1)
     (b64_encode ([78, 61, 74, 65, 62, 81] @ replicate 16 248)) = Inr False"
proof -
  let ?sv = "b64_encode ([78, 61, 74, 65, 62, 81] @ replicate 16 248)"
  note t = verifyMasterPassword_total[of toy "lit ''no''" "replicate 16 1" ?sv]
  have "\<not> (\<exists>key enc dec. deriveKey toy (lit ''no'') (replicate 16 1) = Inr key
           \<and> base64ToArrayBuffer ?sv = Inr enc
           \<and> aes_gcm_decrypt toy key (replicate IV_LENGTH 0) enc = Inr dec
           \<and> TextDecoder_decode dec = lit ''VERIFY'')"
  proof
    assume "\<exists>key enc dec. deriveKey toy (lit ''no'') (replicate 16 1) = Inr key
           \<and> base64ToArrayBuffer ?sv = Inr enc
           \<and> aes_gcm_decrypt toy key (replicate IV_LENGTH 0) enc = Inr dec
           \<and> TextDecoder_decode dec = lit ''VERIFY''"
    then obtain key enc dec where k: "deriveKey toy (lit ''no'') (replicate 16 1) = Inr key"
      and e: "base64ToArrayBuffer ?sv = Inr enc"
      and d: "aes_gcm_decrypt toy key (replicate IV_LENGTH 0) enc = Inr dec"
      by blast
    have key: "key = [0x6E, 0x6F] @ replicate 16 1"
      using k unfolding toy_deriveKey encode_no by simp
    have enc: "enc = [78, 61, 74, 65, 62, 81] @ replicate 16 248"
      using e unfolding base64ToArrayBuffer_encode by simp
    show False using d toy_wrong_key unfolding key enc toy_fields by simp
  qed
  then have "verifyMasterPassword toy (lit ''no'') (replicate 16 1) ?sv \<noteq> Inr True"
    using t by blast
  moreover obtain b where "verifyMasterPassword toy (lit ''no'') (replicate 16 1) ?sv = Inr b"
    using t by blast
  ultimately show ?thesis by (cases b) simp_all
qed

section \<open>The session key manager\<close>

lemma unlockVault_no_user: "user st = None \<Longrightarrow> unlockVault P F st mp = (Inr False, st)"
  by (simp add: unlockVault_def)

lemma unlockVault_try_Inr:
  assumes "unlockVault_try P F st u mp = Inr (b, st')"
  shows "(\<not> b \<and> st' = st)
         \<or> (b \<and> verification_succeeds P F u mp
              \<and> (\<exists>key. st' = st\<lparr>encryptionKey := Some key, isUnlocked := True\<rparr>))"
  using assms unfolding unlockVault_try_def verification_succeeds_def
  by (auto simp: bindE_def split: sum.splits option.splits if_splits)

lemma unlockVault_result:
  "(\<exists>b st'. unlockVault P F st mp = (Inr b, st')
      \<and> ((\<not> b \<and> st' = st)
         \<or> (b \<and> (\<exists>u. user st = Some u \<and> verification_succeeds P F u mp)
              \<and> (\<exists>key. st' = st\<lparr>encryptionKey := Some key, isUnlocked := True\<rparr>))))"
proof (cases "user st")
  case None
  then show ?thesis by (auto simp: unlockVault_def)
next
  case (Some u)
  show ?thesis
  proof (cases "unlockVault_try P F st u mp")
    case (Inl e)
    then show ?thesis using Some by (auto simp: unlockVault_def)
  next
    case (Inr r)
    obtain b st' where r: "r = (b, st')" by (cases r)
    show ?thesis
      using unlockVault_try_Inr[OF Inr[unfolded r]] Some Inr r by (auto simp: unlockVault_def)
  qed
qed

text \<open>
  C4: \<open>unlockVault\<close> never throws; and when no user is signed in, or the candidate password
  does not verify against the stored profile (the profile is missing, a step throws, or
  \<open>verifyMasterPassword\<close> returns \<open>false\<close>), it returns \<open>false\<close> and leaves the session state
  as it was, so that a locked session keeps \<open>encryptionKey = null\<close> and
  \<open>isUnlocked = false\<close>.
\<close>

theorem unlockVault_failure:
  "(\<exists>b. fst (unlockVault P F st mp) = Inr b)
   \<and> ((user st = None \<or> (\<exists>u. user st = Some u \<and> \<not> verification_succeeds P F u mp))
        \<longrightarrow> unlockVault P F st mp = (Inr False, st)
            \<and> encryptionKey (snd (unlockVault P F st mp)) = encryptionKey st
            \<and> isUnlocked (snd (unlockVault P F st mp)) = isUnlocked st)"
  using unlockVault_result[of P F st mp] by auto

lemma toy_rejects_no:
  "verifyMasterPassword toy (lit ''no'') (replicate 16 1)
     (b64_encode ([78, 61, 74, 65, 62, 81] @ replicate 16 248)) = Inr False"
  unfolding verifyMasterPassword_def verifyMasterPassword_try_def toy_deriveKey encode_no
    base64ToArrayBuffer_encode bindE_Inr toy_fields toy_wrong_key
  by simp

lemma sample_wrong_password:
  "\<not> verification_succeeds toy sample_firebase (lit ''u1'') (lit ''no'')"
  using toy_rejects_no
  unfolding verification_succeeds_def sample_firebase_def sample_profile_def
  by (simp add: base64ToArrayBuffer_encode del: replicate.simps b64_encode.simps)

theorem unlockVault_failure_witness:
  "user locked_u1 = Some (lit ''u1'')
   \<and> \<not> verification_succeeds toy sample_firebase (lit ''u1'') (lit ''no'')
   \<and> unlockVault toy sample_firebase locked_u1 (lit ''no'') = (Inr False, locked_u1)
   \<and> encryptionKey (snd (unlockVault toy sample_firebase locked_u1 (lit ''no''))) = None
   \<and> isUnlocked (snd (unlockVault toy sample_firebase locked_u1 (lit ''no''))) = False"
proof -
  have u: "user locked_u1 = Some (lit ''u1'')" by (simp add: locked_u1_def)
  have k: "encryptionKey locked_u1 = None" "isUnlocked locked_u1 = False"
    by (simp_all add: locked_u1_def)
  show ?thesis
    using unlockVault_failure[of toy sample_firebase locked_u1 "lit ''no''"] u k
      sample_wrong_password
    by auto
qed


text \<open>
  C5: the handler of \<open>onAuthStateChanged\<close> locks only when the new user is \<open>null\<close>. Called
  with a different signed-in user while the vault is unlocked, it replaces the user and
  keeps the session key and the unlocked state.
\<close>

theorem authStateChanged_switch_keeps_key:
  "user (authStateChanged unlocked_u1 (Some (lit ''u2''))) = Some (lit ''u2'')
   \<and> encryptionKey (authStateChanged unlocked_u1 (Some (lit ''u2'')))
       = Some ([0x70, 0x77] @ replicate 16 1)
   \<and> isUnlocked (authStateChanged unlocked_u1 (Some (lit ''u2''))) = True"
  by (simp add: authStateChanged_def unlocked_u1_def)

lemma authStateChanged_null_locks:
  "encryptionKey (authStateChanged st None) = None \<and> \<not> isUnlocked (authStateChanged st None)"
  by (simp add: authStateChanged_def)

lemma signUp_body_Inr:
  assumes "signUp_body P F rnd st em pw mp = Inr st'"
  shows "\<exists>key. st' = st\<lparr>encryptionKey := Some key, isUnlocked := True\<rparr>"
  using assms unfolding signUp_body_def Let_def
  by (auto simp: bindE_eq_Inr)

lemma signUp_state:
  "snd (signUp P F rnd st em pw mp) = st
   \<or> (\<exists>key. snd (signUp P F rnd st em pw mp)
        = st\<lparr>encryptionKey := Some key, isUnlocked := True\<rparr>)"
proof (cases "signUp_body P F rnd st em pw mp")
  case (Inl e)
  then show ?thesis by (simp add: signUp_def)
next
  case (Inr st')
  then show ?thesis using signUp_body_Inr[OF Inr] by (auto simp: signUp_def)
qed

lemma unlockVault_state:
  "snd (unlockVault P F st mp) = st
   \<or> (\<exists>key. snd (unlockVault P F st mp)
        = st\<lparr>encryptionKey := Some key, isUnlocked := True\<rparr>)"
  using unlockVault_result[of P F st mp] by auto

lemma initial_state_invariant: "key_iff_unlocked initial_state"
  by (simp add: key_iff_unlocked_def initial_state_def)

text \<open>
  C6: the invariant that the session key is present exactly when the state is unlocked is
  kept by every operation of the session key manager: \<open>signUp\<close>, \<open>signIn\<close>, \<open>logout\<close>,
  \<open>unlockVault\<close>, \<open>lockVault\<close> and the handler of \<open>onAuthStateChanged\<close>, whether the
  operation returns or throws.
\<close>

theorem invariant_preserved:
  assumes "key_iff_unlocked st"
  shows "key_iff_unlocked (snd (signUp P F rnd st em pw mp))
       \<and> key_iff_unlocked (snd (signIn F st em2 pw2))
       \<and> key_iff_unlocked (snd (logout F st))
       \<and> key_iff_unlocked (snd (unlockVault P F st mp2))
       \<and> key_iff_unlocked (lockVault st)
       \<and> key_iff_unlocked (authStateChanged st u)"
proof (intro conjI)
  show "key_iff_unlocked (snd (signUp P F rnd st em pw mp))"
    using signUp_state[of P F rnd st em pw mp] assms by (auto simp: key_iff_unlocked_def)
  show "key_iff_unlocked (snd (signIn F st em2 pw2))"
    using assms by (simp add: signIn_def)
  show "key_iff_unlocked (snd (logout F st))"
    by (simp add: logout_def key_iff_unlocked_def)
  show "key_iff_unlocked (snd (unlockVault P F st mp2))"
    using unlockVault_state[of P F st mp2] assms by (auto simp: key_iff_unlocked_def)
  show "key_iff_unlocked (lockVault st)"
    by (simp add: lockVault_def key_iff_unlocked_def)
  show "key_iff_unlocked (authStateChanged st u)"
    using assms by (simp add: authStateChanged_def key_iff_unlocked_def Let_def)
qed

theorem invariant_preserved_witness:
  "key_iff_unlocked unlocked_u1
   \<and> key_iff_unlocked (snd (signUp toy sample_firebase zero_rnd unlocked_u1
         (lit ''bob@example.org'') (lit ''secret'') (lit ''pw'')))
   \<and> key_iff_unlocked (snd (signIn sample_firebase unlocked_u1 (lit ''ann@example.org'')
         (lit ''secret'')))
   \<and> key_iff_unlocked (snd (logout sample_firebase unlocked_u1))
   \<and> key_iff_unlocked (snd (unlockVault toy sample_firebase unlocked_u1 (lit ''pw'')))
   \<and> key_iff_unlocked (lockVault unlocked_u1)
   \<and> key_iff_unlocked (authStateChanged unlocked_u1 (Some (lit ''u2'')))"
proof -
  have i: "key_iff_unlocked unlocked_u1"
    by (simp add: key_iff_unlocked_def unlocked_u1_def)
  show ?thesis
    using invariant_preserved[OF i, of toy sample_firebase zero_rnd "lit ''bob@example.org''"
        "lit ''secret''" "lit ''pw''" "lit ''ann@example.org''" "lit ''secret''" "lit ''pw''"
        "Some (lit ''u2'')"] i
    by simp
qed


lemma toy_accepts_pw:
  "verifyMasterPassword toy (lit ''pw'') (replicate 16 1)
     (b64_encode ([78, 61, 74, 65, 62, 81] @ replicate 16 248)) = Inr True"
  using toy_aead_correct toy_verifier by (rule verify_of_generate)

lemma unlockVault_sample_success:
  "unlockVault toy sample_firebase locked_u1 (lit ''pw'') = (Inr True, unlocked_u1)"
  using toy_accepts_pw
  unfolding unlockVault_def unlockVault_try_def sample_firebase_def sample_profile_def
    locked_u1_def unlocked_u1_def
  by (simp add: base64ToArrayBuffer_encode toy_deriveKey encode_pw
      del: replicate.simps b64_encode.simps)

section \<open>The secure clipboard\<close>

lemma gt_zero_ms: "gt_zero (ms n) = (0 < n)"
  by (simp add: gt_zero_def ms_def)

lemma timer_delay_ms:
  assumes "0 < n" "n < 2147483648"
  shows "timer_delay (ms n) = n"
proof -
  have "integer_part n 0 = n" by (simp add: integer_part_def)
  moreover have "n mod 4294967296 = n" using assms by simp
  ultimately show ?thesis
    using assms by (simp add: timer_delay_def to_long_def ms_def Let_def)
qed

lemma secureClipboardCopy_granted:
  assumes "0 < n" "n < 2147483648" "write_granted w"
  shows "secureClipboardCopy w s (ms n)
         = (Inr (), w\<lparr>clipboard := s, timers := timers w @ [(clock w + n, s)]\<rparr>)"
  using assms
  by (simp add: secureClipboardCopy_def copy_schedule_def writeText_def setTimeout_def gt_zero_ms timer_delay_ms)

lemma copy_schedule_ms:
  assumes "0 < n" "n < 2147483648"
  shows "copy_schedule w s (ms n) = w\<lparr>timers := timers w @ [(clock w + n, s)]\<rparr>"
  using assms by (simp add: copy_schedule_def setTimeout_def gt_zero_ms timer_delay_ms)

lemma secureClipboardCopy_any:
  assumes "write_granted w"
  shows "secureClipboardCopy w s ttl
         = (Inr (), if gt_zero ttl
                    then w\<lparr>clipboard := s,
                           timers := timers w @ [(clock w + timer_delay ttl, s)]\<rparr>
                    else w\<lparr>clipboard := s\<rparr>)"
  using assms
  by (simp add: secureClipboardCopy_def copy_schedule_def writeText_def setTimeout_def)

lemma secureClipboardCopy_refused:
  "\<not> write_granted w \<Longrightarrow> secureClipboardCopy w s ttl = (Inl NotAllowedError, w)"
  by (simp add: secureClipboardCopy_def copy_schedule_def writeText_def)

lemma secureClipboardCopy_writes:
  assumes "write_granted w"
  shows "clipboard (snd (secureClipboardCopy w s ttl)) = s"
    and "write_granted (snd (secureClipboardCopy w s ttl))"
  using assms by (simp_all add: secureClipboardCopy_def copy_schedule_def writeText_def setTimeout_def)

lemma timer_callback_other:
  "clipboard w \<noteq> s \<Longrightarrow> snd (timer_callback s w) = w"
  by (simp add: timer_callback_def callback_read_def readText_def)

lemma timer_callback_granted:
  assumes "read_granted w" "write_granted w"
  shows "timer_callback s w = (Inr (), if clipboard w = s then w\<lparr>clipboard := []\<rparr> else w)"
  using assms
  by (simp add: timer_callback_def callback_read_def callback_clear_def readText_def
      writeText_def)

text \<open>
  C7, as amended: for every secret \<open>s\<close> and every whole number of milliseconds \<open>n\<close> with
  \<open>0 < n < 2 ^ 31\<close>, when the clipboard grants the write, \<open>secureClipboardCopy\<close> writes \<open>s\<close>
  and schedules exactly one timer, due \<open>n\<close> after the call, that captured \<open>s\<close> (whenever the
  part after its \<open>await\<close> runs, it adds exactly that one timer, due \<open>n\<close> later). When the
  timer's callback runs without another task between its read and its clear, and the
  clipboard grants both, it writes the empty string if and only if the content it reads is
  equal to \<open>s\<close>. A callback that finds a content other than its own secret changes
  nothing: run after a different secret was copied, the timer of the earlier copy leaves
  that secret in place.
\<close>

theorem secureClipboardCopy_compare_and_clear:
  assumes "0 < n" "n < 2147483648" "write_granted w"
  shows "secureClipboardCopy w s (ms n)
           = (Inr (), w\<lparr>clipboard := s, timers := timers w @ [(clock w + n, s)]\<rparr>)
       \<and> copy_schedule w' s (ms n) = w'\<lparr>timers := timers w' @ [(clock w' + n, s)]\<rparr>
       \<and> (read_granted w' \<longrightarrow> callback_read s w' = Inr (clipboard w' = s))
       \<and> (read_granted w' \<and> write_granted w' \<longrightarrow>
            timer_callback s w'
            = (Inr (), if clipboard w' = s then w'\<lparr>clipboard := []\<rparr> else w'))
       \<and> (write_granted w' \<longrightarrow> callback_clear w' = (Inr (), w'\<lparr>clipboard := []\<rparr>))
       \<and> (clipboard w' \<noteq> s \<longrightarrow> snd (timer_callback s w') = w')
       \<and> (s2 \<noteq> s \<longrightarrow>
            clipboard (snd (timer_callback s
              (snd (secureClipboardCopy (snd (secureClipboardCopy w s (ms n))) s2 ttl2))))
            = s2)"
proof (intro conjI impI)
  show "secureClipboardCopy w s (ms n)
        = (Inr (), w\<lparr>clipboard := s, timers := timers w @ [(clock w + n, s)]\<rparr>)"
    using assms by (rule secureClipboardCopy_granted)
  show "copy_schedule w' s (ms n) = w'\<lparr>timers := timers w' @ [(clock w' + n, s)]\<rparr>"
    using assms(1,2) by (rule copy_schedule_ms)
  show "callback_read s w' = Inr (clipboard w' = s)" if "read_granted w'"
    using that by (simp add: callback_read_def readText_def)
  show "timer_callback s w'
        = (Inr (), if clipboard w' = s then w'\<lparr>clipboard := []\<rparr> else w')"
    if "read_granted w' \<and> write_granted w'"
    using that by (simp add: timer_callback_granted)
  show "callback_clear w' = (Inr (), w'\<lparr>clipboard := []\<rparr>)" if "write_granted w'"
    using that by (simp add: callback_clear_def writeText_def)
  show "snd (timer_callback s w') = w'" if "clipboard w' \<noteq> s"
    using that by (rule timer_callback_other)
  show "clipboard (snd (timer_callback s
          (snd (secureClipboardCopy (snd (secureClipboardCopy w s (ms n))) s2 ttl2)))) = s2"
    if "s2 \<noteq> s"
  proof -
    let ?w1 = "snd (secureClipboardCopy w s (ms n))"
    let ?w2 = "snd (secureClipboardCopy ?w1 s2 ttl2)"
    have g: "write_granted ?w1" using assms(3) by (rule secureClipboardCopy_writes(2))
    have c: "clipboard ?w2 = s2" using g by (rule secureClipboardCopy_writes(1))
    then have "clipboard ?w2 \<noteq> s" using that by simp
    then show ?thesis using c by (simp add: timer_callback_other)
  qed
qed


theorem secureClipboardCopy_compare_and_clear_witness:
  "0 < (100::int) \<and> (100::int) < 2147483648 \<and> write_granted clip_start
   \<and> secureClipboardCopy clip_start (lit ''secret1'') (ms 100)
       = (Inr (), clip_start\<lparr>clipboard := lit ''secret1'',
                              timers := [(100, lit ''secret1'')]\<rparr>)
   \<and> clipboard (snd (timer_callback (lit ''secret1'')
         (snd (secureClipboardCopy clip_start (lit ''secret1'') (ms 100))))) = []
   \<and> lit ''secret2'' \<noteq> lit ''secret1''
   \<and> clipboard (snd (timer_callback (lit ''secret1'')
         (snd (secureClipboardCopy (snd (secureClipboardCopy clip_start (lit ''secret1'') (ms 100)))
            (lit ''secret2'') (ms 100))))) = lit ''secret2''"
proof -
  have p: "0 < (100::int)" and q: "(100::int) < 2147483648" by simp_all
  have g: "write_granted clip_start" by (simp add: clip_start_def)
  have n: "lit ''secret2'' \<noteq> lit ''secret1''" by (simp add: lit_def)
  let ?w1 = "snd (secureClipboardCopy clip_start (lit ''secret1'') (ms 100))"
  note t = secureClipboardCopy_compare_and_clear[OF p q g, of "lit ''secret1''" ?w1
      "lit ''secret2''" "ms 100"]
  have w1: "?w1 = clip_start\<lparr>clipboard := lit ''secret1'',
                              timers := [(100, lit ''secret1'')]\<rparr>"
    using t by (simp add: clip_start_def)
  have r: "read_granted ?w1 \<and> write_granted ?w1" "clipboard ?w1 = lit ''secret1''"
    unfolding w1 by (simp_all add: clip_start_def)
  have tc: "timer_callback (lit ''secret1'') ?w1
            = (Inr (), if clipboard ?w1 = lit ''secret1'' then ?w1\<lparr>clipboard := []\<rparr> else ?w1)"
    using t r(1) by blast
  have c: "clipboard (snd (timer_callback (lit ''secret1'') ?w1)) = []"
    by (simp add: tc r(2))
  have l: "clipboard (snd (timer_callback (lit ''secret1'')
         (snd (secureClipboardCopy ?w1 (lit ''secret2'') (ms 100))))) = lit ''secret2''"
    using t n by blast
  have f: "secureClipboardCopy clip_start (lit ''secret1'') (ms 100)
       = (Inr (), clip_start\<lparr>clipboard := lit ''secret1'',
                              timers := [(100, lit ''secret1'')]\<rparr>)"
    using t by (simp add: clip_start_def)
  show ?thesis using p q g f c n l by blast
qed

text \<open>The scenario of the specification, on the event loop: \<open>secret1\<close> copied at 0 and
  \<open>secret2\<close> at 50, both for 100 ms; at 100 the clipboard still holds \<open>secret2\<close>, at 150 it
  is empty.\<close>

lemma clipboard_scenario:
  "clipboard (advance_to 100 (snd (secureClipboardCopy
      (advance_to 50 (snd (secureClipboardCopy clip_start (lit ''secret1'') (ms 100))))
      (lit ''secret2'') (ms 100))))
   = lit ''secret2''
   \<and> clipboard (advance_to 150 (advance_to 100 (snd (secureClipboardCopy
      (advance_to 50 (snd (secureClipboardCopy clip_start (lit ''secret1'') (ms 100))))
      (lit ''secret2'') (ms 100)))))
   = []"
proof -
  have d: "timer_delay (ms 100) = 100" by (rule timer_delay_ms) simp_all
  show ?thesis
    by (simp add: clip_start_def secureClipboardCopy_def copy_schedule_def writeText_def setTimeout_def
        timer_callback_def callback_read_def callback_clear_def readText_def advance_to_def
        gt_zero_ms d Let_def lit_def)
qed

lemma half_ms: "gt_zero (Finite 1 (- 1)) \<and> timer_delay (Finite 1 (- 1)) = 0"
  by (simp add: gt_zero_def timer_delay_def to_long_def integer_part_def)

lemma long_overflow: "gt_zero (ms 2147483648) \<and> timer_delay (ms 2147483648) = 0"
proof
  show "gt_zero (ms 2147483648)" by (simp add: gt_zero_ms)
  show "timer_delay (ms 2147483648) = 0"
    by (simp add: timer_delay_def to_long_def integer_part_def ms_def)
qed

text \<open>
  C7 as stated fails in four ways. A \<open>ttl\<close> of \<open>2 ^ 31\<close> ms is positive, but as a \<open>long\<close> it
  is negative: the timer is due at once and clears the secret at time 0. A write that lands
  between the callback's read and its clear is erased: the timer of \<open>secret1\<close> reads
  \<open>secret1\<close>, then \<open>secret2\<close> is copied, then the pending clear empties the clipboard. When
  the clipboard refuses the write, nothing is written and no timer is scheduled. When it
  refuses the read in the callback, the secret stays although the content equals it.
\<close>

theorem secureClipboardCopy_counterexample:
  "gt_zero (ms 2147483648)
   \<and> secureClipboardCopy clip_start (lit ''secret1'') (ms 2147483648)
       = (Inr (), clip_start\<lparr>clipboard := lit ''secret1'', timers := [(0, lit ''secret1'')]\<rparr>)
   \<and> clipboard (advance_to 0
         (snd (secureClipboardCopy clip_start (lit ''secret1'') (ms 2147483648)))) = []
   \<and> callback_read (lit ''secret1'')
         (snd (secureClipboardCopy clip_start (lit ''secret1'') (ms 100))) = Inr True
   \<and> clipboard (snd (callback_clear (snd (secureClipboardCopy
         (snd (secureClipboardCopy clip_start (lit ''secret1'') (ms 100)))
         (lit ''secret2'') (ms 100))))) = []
   \<and> lit ''secret2'' \<noteq> lit ''secret1'' \<and> lit ''secret2'' \<noteq> []
   \<and> secureClipboardCopy clip_no_write (lit ''secret1'') (ms 100)
       = (Inl NotAllowedError, clip_no_write)
   \<and> clipboard clip_no_read = lit ''secret1''
   \<and> timer_callback (lit ''secret1'') clip_no_read = (Inl NotAllowedError, clip_no_read)"
proof -
  have d: "timer_delay (ms 100) = 100" by (rule timer_delay_ms) simp_all
  show ?thesis
    using long_overflow
    by (simp add: clip_start_def clip_no_write_def clip_no_read_def secureClipboardCopy_def copy_schedule_def
        writeText_def setTimeout_def timer_callback_def callback_read_def callback_clear_def
        readText_def advance_to_def gt_zero_ms d Let_def lit_def)
qed

section \<open>The password generator\<close>

lemma generatePassword_loop_eq:
  "i \<le> len \<Longrightarrow>
   generatePassword_loop charset array len i password
   = password @ map (\<lambda>j. charset ! (unat (array ! j) mod length charset)) [i..<len]"
proof (induction charset array len i password rule: generatePassword_loop.induct)
  case (1 charset array len i password)
  show ?case
  proof (cases "i < len")
    case True
    then show ?thesis
      using 1 by (subst generatePassword_loop.simps) (simp add: upt_conv_Cons)
  next
    case False
    then show ?thesis using 1(2) by (subst generatePassword_loop.simps) simp
  qed
qed

lemma charsets_nonempty:
  "UPPERCASE \<noteq> []" "LOWERCASE \<noteq> []" "NUMBERS \<noteq> []" "SYMBOLS \<noteq> []" "FALLBACK \<noteq> []"
  by (simp_all add: UPPERCASE_def LOWERCASE_def NUMBERS_def SYMBOLS_def FALLBACK_def lit_def)

lemma build_charset_nonempty: "build_charset options \<noteq> []"
  by (simp add: build_charset_def Let_def charsets_nonempty)

lemma set_build_charset: "set (build_charset options) = allowed_chars options"
  by (auto simp: build_charset_def allowed_chars_def Let_def charsets_nonempty)

lemma picks_in_charset:
  "cs \<noteq> [] \<Longrightarrow> set (map (\<lambda>j. cs ! (f j mod length cs)) js) \<subseteq> set cs"
  by auto

lemma generatePassword_Inr:
  assumes "4 * n \<le> 65536"
  shows "generatePassword rnd32 n options
         = Inr (map (\<lambda>j. build_charset options ! (unat (map rnd32 [0..<n] ! j)
                   mod length (build_charset options))) [0..<n])"
  using assms by (simp add: generatePassword_def Let_def generatePassword_loop_eq)

text \<open>
  C8: for every length \<open>n\<close> from 8 to 64 and every selection of the class flags,
  \<open>generatePassword\<close> returns a string of exactly \<open>n\<close> characters, each of which belongs
  to the union of the character sets of the enabled classes, or to the alphanumeric
  characters when no class is enabled.
\<close>

theorem generatePassword_in_charset:
  assumes "8 \<le> n" "n \<le> 64"
  shows "\<exists>pw. generatePassword rnd32 n options = Inr pw
            \<and> length pw = n \<and> set pw \<subseteq> allowed_chars options"
proof -
  let ?cs = "build_charset options"
  let ?pw = "map (\<lambda>j. ?cs ! (unat (map rnd32 [0..<n] ! j) mod length ?cs)) [0..<n]"
  have q: "4 * n \<le> 65536" using assms(2) by simp
  have "set ?pw \<subseteq> set ?cs"
    by (rule picks_in_charset[OF build_charset_nonempty])
  then show ?thesis
    using generatePassword_Inr[OF q, of rnd32 options] by (simp add: set_build_charset)
qed


lemma allowed_upper_digits:
  "allowed_chars upper_digits = set (lit ''ABCDEFGHIJKLMNOPQRSTUVWXYZ0123456789'')"
proof -
  have "lit ''ABCDEFGHIJKLMNOPQRSTUVWXYZ0123456789'' = UPPERCASE @ NUMBERS"
    by (simp add: UPPERCASE_def NUMBERS_def lit_def)
  then show ?thesis
    by (simp add: allowed_chars_def upper_digits_def enabled_def)
qed

theorem generatePassword_in_charset_witness:
  "(8::nat) \<le> 16 \<and> (16::nat) \<le> 64
   \<and> (\<exists>pw. generatePassword sample_rnd32 16 upper_digits = Inr pw \<and> length pw = 16
          \<and> set pw \<subseteq> set (lit ''ABCDEFGHIJKLMNOPQRSTUVWXYZ0123456789''))"
proof -
  have a: "(8::nat) \<le> 16" and b: "(16::nat) \<le> 64" by simp_all
  show ?thesis
    using generatePassword_in_charset[OF a b, of sample_rnd32 upper_digits] a b
    unfolding allowed_upper_digits by simp
qed

section \<open>Decrypting a snapshot\<close>

lemma snapshot_loop_acc:
  "snapshot_loop P parse key docs acc
   = (fst acc @ List.map_filter (entry_of P parse key) docs,
      snd acc @ List.map_filter
        (\<lambda>d. case decrypt_entry P parse key d of Inl err \<Rightarrow> Some err | Inr e \<Rightarrow> None) docs)"
proof (induction docs arbitrary: acc)
  case Nil
  show ?case by (simp add: List.map_filter_simps)
next
  case (Cons d ds)
  show ?case
    by (cases "decrypt_entry P parse key d")
       (simp_all add: Cons List.map_filter_simps entry_of_def)
qed

lemma onSnapshot_entries:
  "fst (onSnapshot P parse key docs) = List.map_filter (entry_of P parse key) docs"
  by (simp add: onSnapshot_def snapshot_loop_acc)

lemma map_filter_append: "List.map_filter f (xs @ ys) = List.map_filter f xs @ List.map_filter f ys"
  by (simp add: List.map_filter_def)

lemma length_errors:
  "length (List.map_filter
     (\<lambda>d. case decrypt_entry P parse key d of Inl err \<Rightarrow> Some err | Inr e \<Rightarrow> None) docs)
   = length (filter (\<lambda>d. entry_of P parse key d = None) docs)"
  by (induction docs) (auto simp: List.map_filter_simps entry_of_def split: sum.splits)

lemma decrypt_entry_payload:
  assumes "decryptData P (epd_ciphertext d) (epd_iv d) key = Inr j"
    and "parse j = Inr (JObj kvs)"
  shows "decrypt_entry P parse key d
         = Inr \<lparr>pe_id = epd_id d, pe_title = epd_title d,
                 pe_username = map_of kvs (lit ''username''),
                 pe_password = map_of kvs (lit ''password''),
                 pe_url = map_of kvs (lit ''url''), pe_notes = map_of kvs (lit ''notes''),
                 pe_tags = (case epd_tags d of None \<Rightarrow> [] | Some t \<Rightarrow> t),
                 pe_createdAt = epd_createdAt d, pe_updatedAt = epd_updatedAt d\<rparr>"
  unfolding decrypt_entry_def assms bindE_Inr get_prop_def by simp

lemma decrypt_entry_fails:
  "decryptData P (epd_ciphertext d) (epd_iv d) key = Inl e \<Longrightarrow>
   decrypt_entry P parse key d = Inl e \<and> entry_of P parse key d = None"
  by (simp add: decrypt_entry_def entry_of_def)

text \<open>
  C9: when a snapshot is processed, the result holds, in order, the entry of every document
  whose decryption (and parsing) succeeds; a document whose decryption fails adds nothing
  but one logged error, and the documents before and after it are processed as if it were
  not there.
\<close>

theorem snapshot_skips_failures:
  "fst (onSnapshot P parse key docs) = List.map_filter (entry_of P parse key) docs
   \<and> length (snd (onSnapshot P parse key docs))
       = length (filter (\<lambda>d. entry_of P parse key d = None) docs)
   \<and> (entry_of P parse key d = None \<longrightarrow>
        fst (onSnapshot P parse key (xs @ d # ys))
        = fst (onSnapshot P parse key xs) @ fst (onSnapshot P parse key ys))
   \<and> (entry_of P parse key d = Some e \<longrightarrow>
        fst (onSnapshot P parse key (xs @ d # ys))
        = fst (onSnapshot P parse key xs) @ e # fst (onSnapshot P parse key ys))"
  by (simp add: onSnapshot_entries map_filter_append List.map_filter_simps
      onSnapshot_def snapshot_loop_acc length_errors)


lemma encode_braces: "TextEncoder_encode (lit ''{}'') = [0x7B, 0x7D]"
  by (simp add: TextEncoder_encode_def lit_def is_surrogate_def is_high_def utf8_encode_cp_def
      to_byte_def)

lemma decode_braces: "TextDecoder_decode [0x7B, 0x7D] = lit ''{}''"
proof -
  have "TextDecoder_decode (TextEncoder_encode (lit ''{}'')) = lit ''{}''"
    by (rule text_roundtrip)
       (simp_all add: lit_def is_high_def is_surrogate_def starts_with_bom_def)
  then show ?thesis unfolding encode_braces .
qed

lemma toy_open_good:
  "toy_decrypt [1, 2, 3] (replicate 12 0) ([0x82, 0x84] @ replicate 16 7) = Inr [0x7B, 0x7D]"
  by (simp add: toy_decrypt_def toy_mask_def sum_list_replicate)

lemma toy_open_bad:
  "toy_decrypt [1, 2, 3] (replicate 12 0) ([0x82, 0x84] @ replicate 16 8)
   = Inl OperationError"
  by (simp add: toy_decrypt_def toy_mask_def sum_list_replicate)

lemma entry_of_good: "entry_of toy sample_parse [1, 2, 3] good_doc = Some good_entry"
  unfolding entry_of_def decrypt_entry_def good_doc_def good_entry_def
  by (simp add: decryptData_encoded toy_open_good decode_braces sample_parse_def get_prop_def
      del: replicate.simps b64_encode.simps append.simps)

lemma entry_of_bad: "entry_of toy sample_parse [1, 2, 3] bad_doc = None"
  unfolding entry_of_def decrypt_entry_def bad_doc_def
  by (simp add: decryptData_encoded toy_open_bad
      del: replicate.simps b64_encode.simps append.simps)

theorem snapshot_skips_failures_witness:
  "entry_of toy sample_parse [1, 2, 3] bad_doc = None
   \<and> entry_of toy sample_parse [1, 2, 3] good_doc = Some good_entry
   \<and> fst (onSnapshot toy sample_parse [1, 2, 3] [good_doc, bad_doc, good_doc])
       = [good_entry, good_entry]
   \<and> length (snd (onSnapshot toy sample_parse [1, 2, 3] [good_doc, bad_doc, good_doc])) = 1"
  using snapshot_skips_failures[of toy sample_parse "[1, 2, 3]" "[good_doc, bad_doc, good_doc]"
      bad_doc "[good_doc]" "[good_doc]" good_entry]
    entry_of_good entry_of_bad
  by (simp add: List.map_filter_simps)

lemma sample_right_password:
  "verification_succeeds toy sample_firebase (lit ''u1'') (lit ''pw'')"
  using toy_accepts_pw
  unfolding verification_succeeds_def sample_firebase_def sample_profile_def
  by (simp add: base64ToArrayBuffer_encode del: replicate.simps b64_encode.simps)

text \<open>
  The comparison of \<open>verifyMasterPassword\<close> is on the decoded text: a stored verifier that
  seals the marker preceded by a byte order mark is accepted too, since the decoder drops
  the mark. Only the holder of the key can make such a verifier.
\<close>

lemma encode_bom_VERIFY:
  "TextEncoder_encode (0xFEFF # lit ''VERIFY'')
   = [0xEF, 0xBB, 0xBF, 0x56, 0x45, 0x52, 0x49, 0x46, 0x59]"
  by (simp add: TextEncoder_encode_def lit_def is_surrogate_def is_high_def utf8_encode_cp_def
      to_byte_def)

lemma decode_bom_VERIFY:
  "TextDecoder_decode [0xEF, 0xBB, 0xBF, 0x56, 0x45, 0x52, 0x49, 0x46, 0x59] = lit ''VERIFY''"
proof -
  have "TextDecoder_decode (TextEncoder_encode (0xFEFF # lit ''VERIFY'')) = lit ''VERIFY''"
    unfolding text_codec
    by (simp add: lit_def is_surrogate_def is_high_def strip_bom_def from_scalar_def)
  then show ?thesis unfolding encode_bom_VERIFY .
qed

lemma toy_open_bom_VERIFY:
  "toy_decrypt ([0x70, 0x77] @ replicate 16 1) (replicate IV_LENGTH 0)
     ([231, 179, 183, 78, 61, 74, 65, 62, 81] @ replicate 16 248)
   = Inr [0xEF, 0xBB, 0xBF, 0x56, 0x45, 0x52, 0x49, 0x46, 0x59]"
  by (simp add: toy_decrypt_def toy_mask_def IV_LENGTH_def sum_list_replicate)

lemma verify_accepts_marked_marker:
  "verifyMasterPassword toy (lit ''pw'') (replicate 16 1)
     (b64_encode ([231, 179, 183, 78, 61, 74, 65, 62, 81] @ replicate 16 248)) = Inr True"
  unfolding verifyMasterPassword_def verifyMasterPassword_try_def toy_deriveKey encode_pw
    base64ToArrayBuffer_encode bindE_Inr toy_fields toy_open_bom_VERIFY Let_def decode_bom_VERIFY
  by simp

text \<open>
  C3 as stated fails: a decrypted result different from the marker can yield \<open>true\<close>. The
  stored verifier below opens, under the key of the password \<open>pw\<close>, to the nine bytes
  \<open>EF BB BF\<close> \<open>VERIFY\<close>, which are not the six bytes of the marker; the decoder drops the
  byte order mark and \<open>verifyMasterPassword\<close> returns \<open>true\<close>.
\<close>

theorem verifyMasterPassword_counterexample:
  "deriveKey toy (lit ''pw'') (replicate 16 1) = Inr ([0x70, 0x77] @ replicate 16 1)
   \<and> base64ToArrayBuffer
         (b64_encode ([231, 179, 183, 78, 61, 74, 65, 62, 81] @ replicate 16 248))
       = Inr ([231, 179, 183, 78, 61, 74, 65, 62, 81] @ replicate 16 248)
   \<and> aes_gcm_decrypt toy ([0x70, 0x77] @ replicate 16 1) (replicate IV_LENGTH 0)
         ([231, 179, 183, 78, 61, 74, 65, 62, 81] @ replicate 16 248)
       = Inr [0xEF, 0xBB, 0xBF, 0x56, 0x45, 0x52, 0x49, 0x46, 0x59]
   \<and> TextEncoder_encode (lit ''VERIFY'') = [0x56, 0x45, 0x52, 0x49, 0x46, 0x59]
   \<and> [0xEF, 0xBB, 0xBF, 0x56, 0x45, 0x52, 0x49, 0x46, 0x59]
       \<noteq> [0x56, 0x45, 0x52, 0x49, 0x46, 0x59 :: byte]
   \<and> verifyMasterPassword toy (lit ''pw'') (replicate 16 1)
         (b64_encode ([231, 179, 183, 78, 61, 74, 65, 62, 81] @ replicate 16 248)) = Inr True"
proof (intro conjI)
  show "deriveKey toy (lit ''pw'') (replicate 16 1) = Inr ([0x70, 0x77] @ replicate 16 1)"
    unfolding toy_deriveKey encode_pw by (rule refl)
  show "base64ToArrayBuffer
         (b64_encode ([231, 179, 183, 78, 61, 74, 65, 62, 81] @ replicate 16 248))
       = Inr ([231, 179, 183, 78, 61, 74, 65, 62, 81] @ replicate 16 248)"
    by (rule base64ToArrayBuffer_encode)
  show "aes_gcm_decrypt toy ([0x70, 0x77] @ replicate 16 1) (replicate IV_LENGTH 0)
         ([231, 179, 183, 78, 61, 74, 65, 62, 81] @ replicate 16 248)
       = Inr [0xEF, 0xBB, 0xBF, 0x56, 0x45, 0x52, 0x49, 0x46, 0x59]"
    unfolding toy_fields by (rule toy_open_bom_VERIFY)
  show "TextEncoder_encode (lit ''VERIFY'') = [0x56, 0x45, 0x52, 0x49, 0x46, 0x59]"
    by (rule encode_VERIFY)
  show "[0xEF, 0xBB, 0xBF, 0x56, 0x45, 0x52, 0x49, 0x46, 0x59]
       \<noteq> [0x56, 0x45, 0x52, 0x49, 0x46, 0x59 :: byte]"
    by simp
  show "verifyMasterPassword toy (lit ''pw'') (replicate 16 1)
         (b64_encode ([231, 179, 183, 78, 61, 74, 65, 62, 81] @ replicate 16 248)) = Inr True"
    by (rule verify_accepts_marked_marker)
qed

end
